theory Spec2Isabelle
  imports Main "HOL-Library.Multiset"
begin

section \<open>ACME auto mode and challenge verification\<close>

text \<open>
  A shallow embedding of the issuance orchestrator (the two \<^verbatim>\<open>auto\<close> modules: the staged
  one that provisions every record before verifying, and \<^verbatim>\<open>src/auto.js\<close>, which handles each
  domain inline) and of the challenge verifier (\<^verbatim>\<open>verifyHttpChallenge\<close>,
  \<^verbatim>\<open>verifyDnsChallenge\<close>).

  Conventions of the embedding:
  \<^item> A JavaScript \<^verbatim>\<open>Error\<close> object is a value of \<open>js_error\<close> (its \<^verbatim>\<open>name\<close> and
    \<^verbatim>\<open>message\<close>); whatever a collaborator or a hook throws or rejects with is such an object.
  \<^item> A call that may throw returns \<open>js_error + 'a\<close>, \<open>Inl\<close> being the thrown error.
  \<^item> Every call to an external collaborator (transport client, CSR parser, hooks, timers,
    HTTP and DNS) is recorded as an \<open>event\<close>; a function returns the events it caused
    together with its outcome.  The outcome of a collaborator is a function of its
    arguments.
  \<^item> The tasks that \<^verbatim>\<open>Promise.all\<close> runs side by side are laid out in index order: the
    events of task \<open>i\<close> precede those of task \<open>i + 1\<close>, every task runs to its own end
    (JavaScript does not cancel a task when a sibling rejects), and of several rejections
    the one of the lowest index is reported.
  \<^item> Progress messages of the logger are left out; the messages written in \<^verbatim>\<open>catch\<close>
    blocks are events.
  \<^item> Strings are lists of characters below U+0100.
\<close>

subsection \<open>Errors\<close>

datatype js_error = JsError (err_name: string) (err_message: string)

text \<open>\<^verbatim>\<open>Error.prototype.toString\<close>.\<close>

definition error_toString :: "js_error \<Rightarrow> string" where
  "error_toString e =
     (if err_name e = [] then err_message e
      else if err_message e = [] then err_name e
      else err_name e @ '': '' @ err_message e)"

text \<open>\<^verbatim>\<open>new Error(msg)\<close>.\<close>

definition new_Error :: "string \<Rightarrow> js_error" where
  "new_Error msg = JsError ''Error'' msg"

subsection \<open>Data\<close>

record challenge =
  chal_type :: string
  token :: string
  url :: string

record acme_identifier =
  id_type :: string
  id_value :: string

record authorization =
  authz_identifier :: acme_identifier
  challenges :: "challenge list"

subsection \<open>Challenge selection\<close>

text \<open>\<^verbatim>\<open>Array.prototype.indexOf\<close>: the first index of the element, or \<open>-1\<close>.\<close>

fun indexOf :: "'a list \<Rightarrow> 'a \<Rightarrow> int" where
  "indexOf [] x = - 1"
| "indexOf (y # ys) x =
     (if y = x then 0 else (let r = indexOf ys x in if r = - 1 then - 1 else r + 1))"

text \<open>
  The comparator handed to \<^verbatim>\<open>authz.challenges.sort\<close>:
  \<^verbatim>\<open>
  (a, b) => {
      const aidx = opts.challengePriority.indexOf(a.type);
      const bidx = opts.challengePriority.indexOf(b.type);
      if (aidx === -1) return 1;
      if (bidx === -1) return -1;
      return aidx - bidx;
  }
  \<close>
\<close>

definition compareFn :: "string list \<Rightarrow> challenge \<Rightarrow> challenge \<Rightarrow> int" where
  "compareFn challengePriority a b =
     (let aidx = indexOf challengePriority (chal_type a);
          bidx = indexOf challengePriority (chal_type b)
      in if aidx = - 1 then 1 else if bidx = - 1 then - 1 else aidx - bidx)"

text \<open>
  \<^verbatim>\<open>Array.prototype.sort\<close> belongs to the runtime.  ECMAScript (since ES2019) asks for a
  stable sort, and the sort of V8 (Node.js 11 and later) looks at a comparator's result
  only through the test \<^verbatim>\<open>order < 0\<close>.  The model is the stable insertion sort that does
  the same: elements are taken from left to right and each is put before the first
  element already placed that it is smaller than (\<^verbatim>\<open>comparefn(x, y) < 0\<close>).
\<close>

fun insert_sorted :: "('a \<Rightarrow> 'a \<Rightarrow> int) \<Rightarrow> 'a \<Rightarrow> 'a list \<Rightarrow> 'a list" where
  "insert_sorted cmp x [] = [x]"
| "insert_sorted cmp x (y # ys) =
     (if cmp x y < 0 then x # y # ys else y # insert_sorted cmp x ys)"

definition js_sort :: "('a \<Rightarrow> 'a \<Rightarrow> int) \<Rightarrow> 'a list \<Rightarrow> 'a list" where
  "js_sort cmp xs = foldl (\<lambda>acc x. insert_sorted cmp x acc) [] xs"

text \<open>
  The selection step of both orchestrators:
  \<^verbatim>\<open>
  const d = authz.identifier.value;
  const challenge = authz.challenges.sort(...).slice(0, 1)[0];
  if (!challenge) {
      throw new Error(`Unable to select challenge for ${d}, no challenge found`);
  }
  \<close>
  \<^verbatim>\<open>sort\<close> works in place, so the authorization object is changed; the function returns
  it with the selected challenge.
\<close>

definition select_challenge ::
  "string list \<Rightarrow> authorization \<Rightarrow> js_error + (authorization \<times> challenge)" where
  "select_challenge challengePriority authz =
     (let d = id_value (authz_identifier authz);
          sorted = js_sort (compareFn challengePriority) (challenges authz);
          authz' = authz\<lparr>challenges := sorted\<rparr>
      in case take 1 sorted of
           [] \<Rightarrow> Inl (new_Error (''Unable to select challenge for '' @ d @ '', no challenge found''))
         | challenge # _ \<Rightarrow> Inr (authz', challenge))"

text \<open>
  The rank a challenge has under a priority list: the position of its type, and the
  length of the list (after every listed type) when the type is not listed.
\<close>

definition priority_rank :: "string list \<Rightarrow> challenge \<Rightarrow> nat" where
  "priority_rank challengePriority c =
     (if chal_type c \<in> set challengePriority
      then nat (indexOf challengePriority (chal_type c))
      else length challengePriority)"

subsection \<open>Collaborators and events\<close>

record accountPayload =
  payload_termsOfServiceAgreed :: bool
  payload_contact :: "string list option"

record csrDomains =
  commonName :: string
  altNames :: "string list"

record http_response =
  resp_status :: nat
  resp_data :: string

datatype event =
    GetAccountUrl
  | CreateAccount accountPayload
  | ReadCsrDomains string
  | CreateOrder "acme_identifier list"
  | GetAuthorizations string
  | GetChallengeKeyAuthorization challenge
  | Sleep nat
  | ChallengeCreateFn authorization challenge string
  | VerifyChallenge authorization challenge
  | CompleteChallenge challenge
  | WaitForValidStatus challenge
  | ChallengeRemoveFn authorization challenge string "string option"
  | FinalizeOrder string string
  | GetCertificate string "string option"
  | LogError js_error
  | LogInfo string
  | HttpGet string
  | ResolveCname string
  | ResolveTxt string

text \<open>
  The transport client.  An order and a certificate are opaque strings.
  \<^verbatim>\<open>getAccountUrl\<close> is called without \<^verbatim>\<open>await\<close>: it returns or throws at once.
\<close>

record client =
  getAccountUrl :: "js_error + string"
  createAccount :: "accountPayload \<Rightarrow> js_error + unit"
  createOrder :: "acme_identifier list \<Rightarrow> js_error + string"
  getAuthorizations :: "string \<Rightarrow> js_error + authorization list"
  getChallengeKeyAuthorization :: "challenge \<Rightarrow> js_error + string"
  verifyChallenge :: "authorization \<Rightarrow> challenge \<Rightarrow> js_error + unit"
  completeChallenge :: "challenge \<Rightarrow> js_error + unit"
  waitForValidStatus :: "challenge \<Rightarrow> js_error + unit"
  finalizeOrder :: "string \<Rightarrow> string \<Rightarrow> js_error + unit"
  getCertificate :: "string \<Rightarrow> string option \<Rightarrow> js_error + string"

text \<open>The CSR parser \<^verbatim>\<open>forge.readCsrDomains\<close>.\<close>

record forge =
  readCsrDomains :: "string \<Rightarrow> js_error + csrDomains"

text \<open>
  The options after \<^verbatim>\<open>Object.assign({}, defaultOpts, userOpts)\<close>.  \<open>None\<close> is
  \<^verbatim>\<open>null\<close>.  The record a create hook returns is an opaque string, or \<open>None\<close> when the
  hook returns nothing.
\<close>

record opts =
  csr :: "string option"
  email :: "string option"
  preferredChain :: "string option"
  termsOfServiceAgreed :: bool
  skipChallengeVerification :: bool
  challengePriority :: "string list"
  challengeCreateFn :: "authorization \<Rightarrow> challenge \<Rightarrow> string \<Rightarrow> js_error + string option"
  challengeRemoveFn ::
    "authorization \<Rightarrow> challenge \<Rightarrow> string \<Rightarrow> string option \<Rightarrow> js_error + unit"

definition defaultOpts :: opts where
  "defaultOpts =
     \<lparr>csr = None, email = None, preferredChain = None, termsOfServiceAgreed = False,
      skipChallengeVerification = False, challengePriority = [''http-01'', ''dns-01''],
      challengeCreateFn = (\<lambda>_ _ _. Inl (new_Error ''Missing challengeCreateFn()'')),
      challengeRemoveFn = (\<lambda>_ _ _ _. Inl (new_Error ''Missing challengeRemoveFn()''))\<rparr>"

text \<open>
  \<^verbatim>\<open>{ authz, keyAuthorization, domain, challenge }\<close>, to which the staged orchestrator
  later adds \<^verbatim>\<open>record\<close>.
\<close>

record challengeInfo =
  authz :: authorization
  keyAuthorization :: string
  domain :: string
  challenge :: challenge
  record_handle :: "string option"

text \<open>
  \<^verbatim>\<open>Promise.all\<close> over the outcomes of tasks that have all run: the values when every task
  succeeded, else the rejection of the lowest index.
\<close>

fun promise_all :: "(js_error + 'a) list \<Rightarrow> js_error + 'a list" where
  "promise_all [] = Inr []"
| "promise_all (Inl e # rs) = Inl e"
| "promise_all (Inr v # rs) =
     (case promise_all rs of Inl e \<Rightarrow> Inl e | Inr vs \<Rightarrow> Inr (v # vs))"

subsection \<open>Steps shared by both orchestrators\<close>

text \<open>
  \<^verbatim>\<open>Buffer.from(opts.csr)\<close> throws a \<^verbatim>\<open>TypeError\<close> when the CSR is \<^verbatim>\<open>null\<close>; the text of
  the message is the runtime's.
\<close>

definition buffer_from_null :: js_error where
  "buffer_from_null = JsError ''TypeError'' ''The first argument must be of type string or an instance of Buffer, ArrayBuffer, or Array or an Array-like Object. Received null''"

text \<open>
  \<^verbatim>\<open>
  const accountPayload = { termsOfServiceAgreed: opts.termsOfServiceAgreed };
  if (opts.email) { accountPayload.contact = [`mailto:${opts.email}`]; }
  \<close>
  An empty string is falsy.
\<close>

definition make_accountPayload :: "opts \<Rightarrow> accountPayload" where
  "make_accountPayload opts =
     \<lparr>payload_termsOfServiceAgreed = termsOfServiceAgreed opts,
      payload_contact =
        (case email opts of
           None \<Rightarrow> None
         | Some e \<Rightarrow> if e = [] then None else Some [''mailto:'' @ e])\<rparr>"

text \<open>
  \<^verbatim>\<open>
  try { client.getAccountUrl(); }
  catch (e) { await client.createAccount(accountPayload); }
  \<close>
\<close>

definition register_account :: "client \<Rightarrow> opts \<Rightarrow> event list \<times> (js_error + unit)" where
  "register_account client opts =
     (case getAccountUrl client of
        Inr _ \<Rightarrow> ([GetAccountUrl], Inr ())
      | Inl _ \<Rightarrow>
          (case createAccount client (make_accountPayload opts) of
             Inl e \<Rightarrow> ([GetAccountUrl, CreateAccount (make_accountPayload opts)], Inl e)
           | Inr _ \<Rightarrow> ([GetAccountUrl, CreateAccount (make_accountPayload opts)], Inr ())))"

text \<open>\<^verbatim>\<open>[csrDomains.commonName].concat(csrDomains.altNames)\<close>\<close>

definition domains_of :: "csrDomains \<Rightarrow> string list" where
  "domains_of csrDomains = [commonName csrDomains] @ altNames csrDomains"

text \<open>\<^verbatim>\<open>{ identifiers: domains.map((d) => ({ type: 'dns', value: d })) }\<close>\<close>

definition orderPayload :: "string list \<Rightarrow> acme_identifier list" where
  "orderPayload domains = map (\<lambda>d. \<lparr>id_type = ''dns'', id_value = d\<rparr>) domains"

text \<open>Parsing the CSR, placing the order and fetching its authorizations.\<close>

definition place_order ::
  "forge \<Rightarrow> client \<Rightarrow> string \<Rightarrow> event list \<times> (js_error + string \<times> authorization list)" where
  "place_order forge client csr_bytes =
     (case readCsrDomains forge csr_bytes of
        Inl e \<Rightarrow> ([ReadCsrDomains csr_bytes], Inl e)
      | Inr csrDomains \<Rightarrow>
          (let payload = orderPayload (domains_of csrDomains) in
           case createOrder client payload of
             Inl e \<Rightarrow> ([ReadCsrDomains csr_bytes, CreateOrder payload], Inl e)
           | Inr order \<Rightarrow>
               (case getAuthorizations client order of
                  Inl e \<Rightarrow>
                    ([ReadCsrDomains csr_bytes, CreateOrder payload, GetAuthorizations order],
                     Inl e)
                | Inr authorizations \<Rightarrow>
                    ([ReadCsrDomains csr_bytes, CreateOrder payload, GetAuthorizations order],
                     Inr (order, authorizations)))))"

text \<open>
  \<^verbatim>\<open>
  await client.completeChallenge(challenge);
  await client.waitForValidStatus(challenge);
  \<close>
\<close>

definition complete_and_wait :: "client \<Rightarrow> challenge \<Rightarrow> event list \<times> (js_error + unit)" where
  "complete_and_wait client ch =
     (case completeChallenge client ch of
        Inl e \<Rightarrow> ([CompleteChallenge ch], Inl e)
      | Inr _ \<Rightarrow>
          (case waitForValidStatus client ch of
             Inl e \<Rightarrow> ([CompleteChallenge ch, WaitForValidStatus ch], Inl e)
           | Inr _ \<Rightarrow> ([CompleteChallenge ch, WaitForValidStatus ch], Inr ())))"

text \<open>
  Verification unless \<^verbatim>\<open>opts.skipChallengeVerification === true\<close>, then completion.
\<close>

definition verify_and_complete ::
  "client \<Rightarrow> opts \<Rightarrow> authorization \<Rightarrow> challenge \<Rightarrow> event list \<times> (js_error + unit)" where
  "verify_and_complete client opts a ch =
     (if skipChallengeVerification opts then complete_and_wait client ch
      else
        (case verifyChallenge client a ch of
           Inl e \<Rightarrow> ([VerifyChallenge a ch], Inl e)
         | Inr _ \<Rightarrow>
             (VerifyChallenge a ch # fst (complete_and_wait client ch),
              snd (complete_and_wait client ch))))"

text \<open>
  \<^verbatim>\<open>
  try { await opts.challengeRemoveFn(authz, challenge, keyAuthorization, record); }
  catch (e) { logger.info(`[auto] [${domain}] challengeRemoveFn threw error: ${e.message}`); }
  \<close>
\<close>

definition remove_suppressed ::
  "opts \<Rightarrow> string \<Rightarrow> authorization \<Rightarrow> challenge \<Rightarrow> string \<Rightarrow> string option \<Rightarrow> event list" where
  "remove_suppressed opts d a ch k r =
     ChallengeRemoveFn a ch k r #
     (case challengeRemoveFn opts a ch k r of
        Inl e \<Rightarrow> [LogInfo (''[auto] ['' @ d @ ''] challengeRemoveFn threw error: '' @ err_message e)]
      | Inr _ \<Rightarrow> [])"

text \<open>
  \<^verbatim>\<open>
  await client.finalizeOrder(order, opts.csr);
  return client.getCertificate(order, opts.preferredChain);
  \<close>
\<close>

definition finalize :: "client \<Rightarrow> opts \<Rightarrow> string \<Rightarrow> string \<Rightarrow> event list \<times> (js_error + string)" where
  "finalize client opts order csr_bytes =
     (case finalizeOrder client order csr_bytes of
        Inl e \<Rightarrow> ([FinalizeOrder order csr_bytes], Inl e)
      | Inr _ \<Rightarrow>
          ([FinalizeOrder order csr_bytes, GetCertificate order (preferredChain opts)],
           getCertificate client order (preferredChain opts)))"

text \<open>
  The opening of both orchestrators, up to the list of authorizations: the CSR is turned
  into a buffer, the account is checked, the order is placed.  The result carries the CSR
  bytes, the order and the authorizations.
\<close>

definition begin_order ::
  "forge \<Rightarrow> client \<Rightarrow> opts \<Rightarrow>
   event list \<times> (js_error + string \<times> string \<times> authorization list)" where
  "begin_order forge client opts =
     (case csr opts of
        None \<Rightarrow> ([], Inl buffer_from_null)
      | Some csr_bytes \<Rightarrow>
          (case register_account client opts of
             (t1, Inl e) \<Rightarrow> (t1, Inl e)
           | (t1, Inr _) \<Rightarrow>
               (case place_order forge client csr_bytes of
                  (t2, Inl e) \<Rightarrow> (t1 @ t2, Inl e)
                | (t2, Inr (order, authorizations)) \<Rightarrow>
                    (t1 @ t2, Inr (csr_bytes, order, authorizations)))))"

subsection \<open>The staged orchestrator\<close>

text \<open>
  The first fan-out: select a challenge and ask the client for its key authorization.
  \<^verbatim>\<open>
  const challengePromises = authorizations.map(async (authz) => {
      const d = authz.identifier.value;
      const challenge = authz.challenges.sort(...).slice(0, 1)[0];
      if (!challenge) { throw new Error(...); }
      const keyAuthorization = await client.getChallengeKeyAuthorization(challenge);
      return { authz, keyAuthorization, domain: d, challenge };
  });
  \<close>
\<close>

definition challengeTask ::
  "client \<Rightarrow> opts \<Rightarrow> authorization \<Rightarrow> event list \<times> (js_error + challengeInfo)" where
  "challengeTask client opts a =
     (case select_challenge (challengePriority opts) a of
        Inl e \<Rightarrow> ([], Inl e)
      | Inr (a', ch) \<Rightarrow>
          (case getChallengeKeyAuthorization client ch of
             Inl e \<Rightarrow> ([GetChallengeKeyAuthorization ch], Inl e)
           | Inr k \<Rightarrow>
               ([GetChallengeKeyAuthorization ch],
                Inr \<lparr>authz = a', keyAuthorization = k, domain = id_value (authz_identifier a),
                     challenge = ch, record_handle = None\<rparr>)))"

text \<open>
  Provisioning.  The task never rejects: a failure of the hook is its value.
  \<^verbatim>\<open>
  const challengeCreatePromises = challengeInfos.map(async (challengeInfo, index) => {
      const { domain, authz, challenge, keyAuthorization } = challengeInfo;
      try {
          await sleep(index * 2000);
          challengeInfo.record = await opts.challengeCreateFn(authz, challenge, keyAuthorization);
          return challengeInfo;
      }
      catch (e) { logger.error('challengeCreate error', e); return e; }
  });
  \<close>
\<close>

definition createTask :: "opts \<Rightarrow> nat \<Rightarrow> challengeInfo \<Rightarrow> event list \<times> (js_error + challengeInfo)" where
  "createTask opts index info =
     (case challengeCreateFn opts (authz info) (challenge info) (keyAuthorization info) of
        Inl e \<Rightarrow>
          ([Sleep (index * 2000),
            ChallengeCreateFn (authz info) (challenge info) (keyAuthorization info),
            LogError e],
           Inl e)
      | Inr r \<Rightarrow>
          ([Sleep (index * 2000),
            ChallengeCreateFn (authz info) (challenge info) (keyAuthorization info)],
           Inr (info\<lparr>record_handle := r\<rparr>)))"

definition challengeCreatePromises ::
  "opts \<Rightarrow> challengeInfo list \<Rightarrow> (event list \<times> (js_error + challengeInfo)) list" where
  "challengeCreatePromises opts challengeInfos =
     map (\<lambda>(index, info). createTask opts index info) (enumerate 0 challengeInfos)"

text \<open>\<^verbatim>\<open>challengeRecordInfos.filter((item) => item instanceof Error)\<close>\<close>

fun hasError :: "(js_error + challengeInfo) list \<Rightarrow> js_error list" where
  "hasError [] = []"
| "hasError (Inl e # items) = e # hasError items"
| "hasError (Inr _ # items) = hasError items"

text \<open>\<^verbatim>\<open>challengeRecordInfos.filter((item) => item && !(item instanceof Error))\<close>\<close>

fun provisioned :: "(js_error + challengeInfo) list \<Rightarrow> challengeInfo list" where
  "provisioned [] = []"
| "provisioned (Inl _ # items) = provisioned items"
| "provisioned (Inr info # items) = info # provisioned items"

text \<open>One verification task of the staged orchestrator.\<close>

definition verifyTask :: "client \<Rightarrow> opts \<Rightarrow> challengeInfo \<Rightarrow> event list \<times> (js_error + unit)" where
  "verifyTask client opts info = verify_and_complete client opts (authz info) (challenge info)"

text \<open>
  The \<^verbatim>\<open>try\<close> block with its \<^verbatim>\<open>catch\<close>, which logs and rethrows.
  \<^verbatim>\<open>
  const hasError = challengeRecordInfos.filter((item) => item instanceof Error);
  if (hasError.length > 0) { throw new Error(hasError[0]); }
  await sleep(30000);
  const verifys = challengeRecordInfos.map(async (challengeInfo) => { ... });
  await Promise.all(verifys);
  \<close>
  \<^verbatim>\<open>new Error(x)\<close> takes the string form of \<open>x\<close> as its message.  Past the check no item
  is an error, so the verification tasks range over all items.
\<close>

definition verify_phase ::
  "client \<Rightarrow> opts \<Rightarrow> (js_error + challengeInfo) list \<Rightarrow> event list \<times> (js_error + unit)" where
  "verify_phase client opts challengeRecordInfos =
     (case hasError challengeRecordInfos of
        e # _ \<Rightarrow>
          ([LogError (new_Error (error_toString e))], Inl (new_Error (error_toString e)))
      | [] \<Rightarrow>
          (let verifys = map (verifyTask client opts) (provisioned challengeRecordInfos);
               events = Sleep 30000 # concat (map fst verifys)
           in case promise_all (map snd verifys) of
                Inl e \<Rightarrow> (events @ [LogError e], Inl e)
              | Inr _ \<Rightarrow> (events, Inr ())))"

text \<open>
  The \<^verbatim>\<open>finally\<close> block.
  \<^verbatim>\<open>
  const willRemovePromises = challengeRecordInfos
      .filter((item) => item && !(item instanceof Error))
      .map(async (challengeInfo, index) => {
          await sleep(index * 2000);
          const { authz, challenge, keyAuthorization, record, domain } = challengeInfo;
          try { await opts.challengeRemoveFn(authz, challenge, keyAuthorization, record); }
          catch (e) { logger.info(...); }
      });
  await Promise.all(willRemovePromises);
  \<close>
\<close>

definition removeTask :: "opts \<Rightarrow> nat \<Rightarrow> challengeInfo \<Rightarrow> event list" where
  "removeTask opts index info =
     Sleep (index * 2000) #
     remove_suppressed opts (domain info) (authz info) (challenge info) (keyAuthorization info)
       (record_handle info)"

definition willRemovePromises :: "opts \<Rightarrow> (js_error + challengeInfo) list \<Rightarrow> event list list" where
  "willRemovePromises opts challengeRecordInfos =
     map (\<lambda>(index, info). removeTask opts index info)
       (enumerate 0 (provisioned challengeRecordInfos))"

text \<open>
  The staged orchestrator in three steps.  First everything up to
  \<^verbatim>\<open>const challengeInfos = await Promise.all(challengePromises)\<close>.
\<close>

definition staged_prepare ::
  "forge \<Rightarrow> client \<Rightarrow> opts \<Rightarrow>
   event list \<times> (js_error + string \<times> string \<times> challengeInfo list)" where
  "staged_prepare forge client opts =
     (case begin_order forge client opts of
        (t, Inl e) \<Rightarrow> (t, Inl e)
      | (t, Inr (csr_bytes, order, authorizations)) \<Rightarrow>
          (let challengePromises = map (challengeTask client opts) authorizations;
               t3 = concat (map fst challengePromises)
           in case promise_all (map snd challengePromises) of
                Inl e \<Rightarrow> (t @ t3, Inl e)
              | Inr challengeInfos \<Rightarrow> (t @ t3, Inr (csr_bytes, order, challengeInfos))))"

text \<open>
  Then provisioning, the \<^verbatim>\<open>try\<close> block and the \<^verbatim>\<open>finally\<close> block: the cleanup runs
  whatever the \<^verbatim>\<open>try\<close> block did, and the outcome is that of the \<^verbatim>\<open>try\<close> block.
\<close>

definition provision_verify_cleanup ::
  "client \<Rightarrow> opts \<Rightarrow> challengeInfo list \<Rightarrow> event list \<times> (js_error + unit)" where
  "provision_verify_cleanup client opts challengeInfos =
     (let creates = challengeCreatePromises opts challengeInfos;
          challengeRecordInfos = map snd creates
      in (concat (map fst creates) @
          fst (verify_phase client opts challengeRecordInfos) @
          concat (willRemovePromises opts challengeRecordInfos),
          snd (verify_phase client opts challengeRecordInfos)))"

text \<open>The whole of the staged orchestrator: the events it causes and its outcome.\<close>

definition auto_staged :: "forge \<Rightarrow> client \<Rightarrow> opts \<Rightarrow> event list \<times> (js_error + string)" where
  "auto_staged forge client opts =
     (case staged_prepare forge client opts of
        (t, Inl e) \<Rightarrow> (t, Inl e)
      | (t, Inr (csr_bytes, order, challengeInfos)) \<Rightarrow>
          (case provision_verify_cleanup client opts challengeInfos of
             (t', Inl e) \<Rightarrow> (t @ t', Inl e)
           | (t', Inr _) \<Rightarrow>
               (t @ t' @ fst (finalize client opts order csr_bytes),
                snd (finalize client opts order csr_bytes))))"

subsection \<open>The inline orchestrator\<close>

text \<open>
  One task per authorization does everything for its domain.
  \<^verbatim>\<open>
  const keyAuthorization = await client.getChallengeKeyAuthorization(challenge);
  let recordItem;
  try {
      recordItem = await opts.challengeCreateFn(authz, challenge, keyAuthorization);
      /* verification unless skipped, completeChallenge, waitForValidStatus */
  }
  finally {
      try { await opts.challengeRemoveFn(authz, challenge, keyAuthorization, recordItem); }
      catch (e) { logger.info(...); }
  }
  \<close>
\<close>

definition inlineTask :: "client \<Rightarrow> opts \<Rightarrow> authorization \<Rightarrow> event list \<times> (js_error + unit)" where
  "inlineTask client opts a =
     (case select_challenge (challengePriority opts) a of
        Inl e \<Rightarrow> ([], Inl e)
      | Inr (a', ch) \<Rightarrow>
          (case getChallengeKeyAuthorization client ch of
             Inl e \<Rightarrow> ([GetChallengeKeyAuthorization ch], Inl e)
           | Inr k \<Rightarrow>
               (case challengeCreateFn opts a' ch k of
                  Inl e \<Rightarrow>
                    ([GetChallengeKeyAuthorization ch, ChallengeCreateFn a' ch k] @
                       remove_suppressed opts (id_value (authz_identifier a)) a' ch k None,
                     Inl e)
                | Inr recordItem \<Rightarrow>
                    ([GetChallengeKeyAuthorization ch, ChallengeCreateFn a' ch k] @
                       fst (verify_and_complete client opts a' ch) @
                       remove_suppressed opts (id_value (authz_identifier a)) a' ch k recordItem,
                     snd (verify_and_complete client opts a' ch)))))"

text \<open>The whole of the inline orchestrator.\<close>

definition auto_inline :: "forge \<Rightarrow> client \<Rightarrow> opts \<Rightarrow> event list \<times> (js_error + string)" where
  "auto_inline forge client opts =
     (case begin_order forge client opts of
        (t, Inl e) \<Rightarrow> (t, Inl e)
      | (t, Inr (csr_bytes, order, authorizations)) \<Rightarrow>
          (let challengePromises = map (inlineTask client opts) authorizations;
               t3 = concat (map fst challengePromises)
           in case promise_all (map snd challengePromises) of
                Inl e \<Rightarrow> (t @ t3 @ [LogError e], Inl e)
              | Inr _ \<Rightarrow>
                  (t @ t3 @ fst (finalize client opts order csr_bytes),
                   snd (finalize client opts order csr_bytes))))"

subsection \<open>The challenge verifier\<close>

text \<open>The decimal form of a number inside a template string.\<close>

definition digit_char :: "nat \<Rightarrow> char" where
  "digit_char n = ''0123456789'' ! n"

function string_of_nat :: "nat \<Rightarrow> string" where
  "string_of_nat n =
     (if n < 10 then [digit_char n] else string_of_nat (n div 10) @ [digit_char (n mod 10)])"
  by pat_completeness auto
termination
  by (relation "measure id") auto

declare string_of_nat.simps [simp del]

text \<open>
  The white space that \<^verbatim>\<open>\s\<close> matches among the characters below U+0100: tab, line
  feed, vertical tab, form feed, carriage return, space and no-break space.
\<close>

definition is_js_space :: "char \<Rightarrow> bool" where
  "is_js_space c = (of_char c \<in> {9, 10, 11, 12, 13, 32, 160 :: nat})"

text \<open>\<^verbatim>\<open>s.replace(/\s+$/, '')\<close>\<close>

definition strip_trailing_space :: "string \<Rightarrow> string" where
  "strip_trailing_space s = rev (dropWhile is_js_space (rev s))"

text \<open>
  The HTTP client: the configured challenge port (\<^verbatim>\<open>axios.defaults.acmeSettings\<close>) and
  \<^verbatim>\<open>axios.get\<close>, which rejects on a network error.
\<close>

record axios =
  httpChallengePort :: "nat option"
  axios_get :: "string \<Rightarrow> js_error + http_response"

text \<open>
  \<^verbatim>\<open>
  async function verifyHttpChallenge(authz, challenge, keyAuthorization,
          suffix = `/.well-known/acme-challenge/${challenge.token}`) {
      const httpPort = axios.defaults.acmeSettings.httpChallengePort || 80;
      const challengeUrl = `http://${authz.identifier.value}:${httpPort}${suffix}`;
      const resp = await axios.get(challengeUrl);
      const data = (resp.data || '').replace(/\s+$/, '');
      if (!data || (data !== keyAuthorization)) {
          throw new Error(`Authorization not found in HTTP response from ${authz.identifier.value}`);
      }
      return true;
  }
  \<close>
  The optional \<^verbatim>\<open>suffix\<close> is \<open>None\<close> when the caller leaves it out.
\<close>

definition httpPort :: "axios \<Rightarrow> nat" where
  "httpPort ax = (case httpChallengePort ax of None \<Rightarrow> 80 | Some p \<Rightarrow> if p = 0 then 80 else p)"

definition challengeUrl :: "axios \<Rightarrow> authorization \<Rightarrow> string \<Rightarrow> string" where
  "challengeUrl ax a suffix =
     ''http://'' @ id_value (authz_identifier a) @ '':'' @ string_of_nat (httpPort ax) @ suffix"

definition verifyHttpChallenge ::
  "axios \<Rightarrow> authorization \<Rightarrow> challenge \<Rightarrow> string \<Rightarrow> string option \<Rightarrow>
   event list \<times> (js_error + bool)" where
  "verifyHttpChallenge ax a ch keyAuth suffix_arg =
     (let suffix = (case suffix_arg of
                      None \<Rightarrow> ''/.well-known/acme-challenge/'' @ token ch
                    | Some s \<Rightarrow> s)
      in case axios_get ax (challengeUrl ax a suffix) of
           Inl e \<Rightarrow> ([HttpGet (challengeUrl ax a suffix)], Inl e)
         | Inr resp \<Rightarrow>
             (let data = strip_trailing_space (resp_data resp) in
              if data = [] \<or> data \<noteq> keyAuth
              then ([HttpGet (challengeUrl ax a suffix)],
                    Inl (new_Error (''Authorization not found in HTTP response from '' @
                           id_value (authz_identifier a))))
              else ([HttpGet (challengeUrl ax a suffix)], Inr True)))"

text \<open>The resolver: \<^verbatim>\<open>dns.resolveCnameAsync\<close> and \<^verbatim>\<open>dns.resolveTxtAsync\<close>.\<close>

record dns =
  resolveCname :: "string \<Rightarrow> js_error + string list"
  resolveTxt :: "string \<Rightarrow> js_error + string list list"



subsection \<open>Observations on a run\<close>

text \<open>The kinds of events that the properties below count.\<close>

fun is_createAccount :: "event \<Rightarrow> bool" where
  "is_createAccount (CreateAccount _) = True"
| "is_createAccount _ = False"

fun is_createOrder :: "event \<Rightarrow> bool" where
  "is_createOrder (CreateOrder _) = True"
| "is_createOrder _ = False"

fun is_create :: "event \<Rightarrow> bool" where
  "is_create (ChallengeCreateFn _ _ _) = True"
| "is_create _ = False"

fun is_remove :: "event \<Rightarrow> bool" where
  "is_remove (ChallengeRemoveFn _ _ _ _) = True"
| "is_remove _ = False"

fun is_verification :: "event \<Rightarrow> bool" where
  "is_verification (VerifyChallenge _ _) = True"
| "is_verification (CompleteChallenge _) = True"
| "is_verification (WaitForValidStatus _) = True"
| "is_verification _ = False"

fun is_logInfo :: "event \<Rightarrow> bool" where
  "is_logInfo (LogInfo _) = True"
| "is_logInfo _ = False"

text \<open>A timer, or a call of one of the two hooks.\<close>

fun is_timed :: "event \<Rightarrow> bool" where
  "is_timed (Sleep _) = True"
| "is_timed (ChallengeCreateFn _ _ _) = True"
| "is_timed (ChallengeRemoveFn _ _ _ _) = True"
| "is_timed _ = False"

definition timed_calls :: "event list \<Rightarrow> event list" where
  "timed_calls tr = filter is_timed tr"

text \<open>The calls of the create hook, of the remove hook, and so on, in a list of events.\<close>

definition create_calls :: "event list \<Rightarrow> event list" where
  "create_calls tr = filter is_create tr"

definition remove_calls :: "event list \<Rightarrow> event list" where
  "remove_calls tr = filter is_remove tr"

text \<open>The call of the create hook for a challenge, and the call of the remove hook.\<close>

definition create_call :: "challengeInfo \<Rightarrow> event" where
  "create_call info = ChallengeCreateFn (authz info) (challenge info) (keyAuthorization info)"

definition remove_call :: "challengeInfo \<Rightarrow> event" where
  "remove_call info =
     ChallengeRemoveFn (authz info) (challenge info) (keyAuthorization info) (record_handle info)"

text \<open>
  The removals that the calls of the create hook in a list of events call for: in
  \<open>removals_for_created\<close> one for every call that returned a record, with that record; in
  \<open>removals_for_attempted\<close> one for every call, with the record if there is one.
\<close>

fun removal_if_created :: "opts \<Rightarrow> event \<Rightarrow> event list" where
  "removal_if_created opts (ChallengeCreateFn a ch k) =
     (case challengeCreateFn opts a ch k of
        Inl _ \<Rightarrow> []
      | Inr r \<Rightarrow> [ChallengeRemoveFn a ch k r])"
| "removal_if_created opts _ = []"

fun removal_if_attempted :: "opts \<Rightarrow> event \<Rightarrow> event list" where
  "removal_if_attempted opts (ChallengeCreateFn a ch k) =
     (case challengeCreateFn opts a ch k of
        Inl _ \<Rightarrow> [ChallengeRemoveFn a ch k None]
      | Inr r \<Rightarrow> [ChallengeRemoveFn a ch k r])"
| "removal_if_attempted opts _ = []"

definition removals_for_created :: "opts \<Rightarrow> event list \<Rightarrow> event list" where
  "removals_for_created opts tr = concat (map (removal_if_created opts) tr)"

definition removals_for_attempted :: "opts \<Rightarrow> event list \<Rightarrow> event list" where
  "removals_for_attempted opts tr = concat (map (removal_if_attempted opts) tr)"

text \<open>The message logged for a call of the remove hook that throws.\<close>

fun removal_log :: "opts \<Rightarrow> event \<Rightarrow> event list" where
  "removal_log opts (ChallengeRemoveFn a ch k r) =
     (case challengeRemoveFn opts a ch k r of
        Inl e \<Rightarrow>
          [LogInfo (''[auto] ['' @ id_value (authz_identifier a) @
             ''] challengeRemoveFn threw error: '' @ err_message e)]
      | Inr _ \<Rightarrow> [])"
| "removal_log opts _ = []"

text \<open>The authorization object a hook is called with.\<close>

fun hook_authz :: "event \<Rightarrow> authorization option" where
  "hook_authz (ChallengeCreateFn a _ _) = Some a"
| "hook_authz (ChallengeRemoveFn a _ _ _) = Some a"
| "hook_authz _ = None"

text \<open>An authorization after the in-place sort of its challenges.\<close>

definition sorted_authz :: "string list \<Rightarrow> authorization \<Rightarrow> authorization" where
  "sorted_authz prio a = a\<lparr>challenges := js_sort (compareFn prio) (challenges a)\<rparr>"

text \<open>
  Events that are neither a call of a hook, nor part of the verification, nor a message
  about a failed removal; and events other than the registration of the account and the
  placing of the order.
\<close>

definition plain_event :: "event \<Rightarrow> bool" where
  "plain_event ev \<longleftrightarrow>
     \<not> is_create ev \<and> \<not> is_remove ev \<and> \<not> is_verification ev \<and> \<not> is_logInfo ev"

definition late_event :: "event \<Rightarrow> bool" where
  "late_event ev \<longleftrightarrow> \<not> is_createAccount ev \<and> \<not> is_createOrder ev"

subsection \<open>Example inputs\<close>

definition ex_http :: challenge where
  "ex_http = \<lparr>chal_type = ''http-01'', token = ''tok-h'', url = ''https://ca.test/chall/h''\<rparr>"

definition ex_dns :: challenge where
  "ex_dns = \<lparr>chal_type = ''dns-01'', token = ''tok-d'', url = ''https://ca.test/chall/d''\<rparr>"

definition ex_tls :: challenge where
  "ex_tls = \<lparr>chal_type = ''tls-alpn-01'', token = ''tok-t'', url = ''https://ca.test/chall/t''\<rparr>"

definition ex_authz :: "string \<Rightarrow> challenge list \<Rightarrow> authorization" where
  "ex_authz d cs = \<lparr>authz_identifier = \<lparr>id_type = ''dns'', id_value = d\<rparr>, challenges = cs\<rparr>"

text \<open>
  A CSR parser, a transport client and hooks for the examples: the client answers every
  request, the hooks fail for the listed domains.
\<close>

definition ex_forge :: "string \<Rightarrow> string list \<Rightarrow> forge" where
  "ex_forge cn alts = \<lparr>readCsrDomains = (\<lambda>_. Inr \<lparr>commonName = cn, altNames = alts\<rparr>)\<rparr>"

definition ex_client :: "js_error + string \<Rightarrow> authorization list \<Rightarrow> client" where
  "ex_client account authzs =
     \<lparr>getAccountUrl = account,
      createAccount = (\<lambda>_. Inr ()),
      createOrder = (\<lambda>_. Inr ''order-1''),
      getAuthorizations = (\<lambda>_. Inr authzs),
      getChallengeKeyAuthorization = (\<lambda>ch. Inr (token ch @ ''.thumb'')),
      verifyChallenge = (\<lambda>_ _. Inr ()),
      completeChallenge = (\<lambda>_. Inr ()),
      waitForValidStatus = (\<lambda>_. Inr ()),
      finalizeOrder = (\<lambda>_ _. Inr ()),
      getCertificate = (\<lambda>_ _. Inr ''certificate'')\<rparr>"

definition ex_create ::
  "string list \<Rightarrow> authorization \<Rightarrow> challenge \<Rightarrow> string \<Rightarrow> js_error + string option" where
  "ex_create failing a ch k =
     (if id_value (authz_identifier a) \<in> set failing
      then Inl (new_Error (''no record for '' @ id_value (authz_identifier a)))
      else Inr (Some (''record-'' @ id_value (authz_identifier a))))"

definition ex_remove ::
  "string list \<Rightarrow> authorization \<Rightarrow> challenge \<Rightarrow> string \<Rightarrow> string option \<Rightarrow>
   js_error + unit" where
  "ex_remove failing a ch k r =
     (if id_value (authz_identifier a) \<in> set failing
      then Inl (new_Error ''cleanup failed'')
      else Inr ())"

definition ex_opts :: "string list \<Rightarrow> string list \<Rightarrow> opts" where
  "ex_opts create_failing remove_failing =
     defaultOpts\<lparr>csr := Some ''csr'', challengeCreateFn := ex_create create_failing,
       challengeRemoveFn := ex_remove remove_failing\<rparr>"

definition ex_info :: "string \<Rightarrow> challenge \<Rightarrow> challengeInfo" where
  "ex_info d ch =
     \<lparr>authz = ex_authz d [ch], keyAuthorization = token ch @ ''.thumb'', domain = d,
      challenge = ch, record_handle = None\<rparr>"

text \<open>
  An HTTP client that serves one body at one URL and cannot reach anything else, and a
  resolver given by its CNAME and TXT tables.
\<close>

definition ex_axios :: "nat option \<Rightarrow> (string \<Rightarrow> js_error + http_response) \<Rightarrow> axios" where
  "ex_axios port get = \<lparr>httpChallengePort = port, axios_get = get\<rparr>"

definition ex_get :: "string \<Rightarrow> string \<Rightarrow> string \<Rightarrow> js_error + http_response" where
  "ex_get served_url body u =
     (if u = served_url then Inr \<lparr>resp_status = 200, resp_data = body\<rparr>
      else Inl (JsError ''Error'' ''getaddrinfo ENOTFOUND''))"



section \<open>Properties\<close>

subsection \<open>Sorting by priority\<close>

lemma indexOf_neg: "indexOf xs x = - 1 \<longleftrightarrow> x \<notin> set xs"
  and indexOf_nonneg: "x \<in> set xs \<Longrightarrow> 0 \<le> indexOf xs x \<and> indexOf xs x < int (length xs)"
  by (induction xs) (auto simp: Let_def)

lemma compareFn_less: "compareFn p a b < 0 \<longleftrightarrow> priority_rank p a < priority_rank p b"
  using indexOf_nonneg[of "chal_type a" p] indexOf_nonneg[of "chal_type b" p]
  by (auto simp: compareFn_def priority_rank_def Let_def indexOf_neg)

lemma mset_insert_sorted: "mset (insert_sorted cmp x ys) = add_mset x (mset ys)"
  by (induction ys) auto

lemma mset_foldl_insert_sorted:
  "mset (foldl (\<lambda>acc x. insert_sorted cmp x acc) acc xs) = mset acc + mset xs"
  by (induction xs arbitrary: acc) (auto simp: mset_insert_sorted)

lemma mset_js_sort: "mset (js_sort cmp xs) = mset xs"
  by (simp add: js_sort_def mset_foldl_insert_sorted)

lemma set_insert_sorted: "set (insert_sorted cmp x ys) = insert x (set ys)"
  by (induction ys) auto

lemma sorted_insert_sorted:
  assumes "\<And>a b. cmp a b < 0 \<longleftrightarrow> f a < (f b :: nat)"
  shows "sorted_wrt (\<lambda>a b. f a \<le> f b) ys \<Longrightarrow>
    sorted_wrt (\<lambda>a b. f a \<le> f b) (insert_sorted cmp x ys)"
  by (induction ys) (auto simp: assms set_insert_sorted)

lemma sorted_foldl_insert_sorted:
  assumes "\<And>a b. cmp a b < 0 \<longleftrightarrow> f a < (f b :: nat)"
  shows "sorted_wrt (\<lambda>a b. f a \<le> f b) acc \<Longrightarrow>
     sorted_wrt (\<lambda>a b. f a \<le> f b) (foldl (\<lambda>acc x. insert_sorted cmp x acc) acc xs)"
  by (induction xs arbitrary: acc) (auto simp: sorted_insert_sorted[OF assms])

lemma sorted_js_sort:
  assumes "\<And>a b. cmp a b < 0 \<longleftrightarrow> f a < (f b :: nat)"
  shows "sorted_wrt (\<lambda>a b. f a \<le> f b) (js_sort cmp xs)"
  unfolding js_sort_def by (rule sorted_foldl_insert_sorted[OF assms]) simp

lemma insert_sorted_append:
  "\<forall>y \<in> set ys. \<not> cmp x y < 0 \<Longrightarrow> insert_sorted cmp x ys = ys @ [x]"
  by (induction ys) auto

lemma foldl_insert_sorted_append:
  "\<forall>x \<in> set xs. \<forall>y \<in> set acc \<union> set xs. \<not> cmp x y < 0 \<Longrightarrow>
   foldl (\<lambda>acc x. insert_sorted cmp x acc) acc xs = acc @ xs"
  by (induction xs arbitrary: acc) (auto simp: insert_sorted_append)

lemma js_sort_unchanged:
  "\<forall>x \<in> set xs. \<forall>y \<in> set xs. \<not> cmp x y < 0 \<Longrightarrow> js_sort cmp xs = xs"
  unfolding js_sort_def by (simp add: foldl_insert_sorted_append)

lemma js_sort_Nil_iff: "js_sort cmp xs = [] \<longleftrightarrow> xs = []"
  using mset_js_sort[of cmp xs] by (metis mset_zero_iff)

lemma head_js_sort_least:
  assumes "\<And>a b. cmp a b < 0 \<longleftrightarrow> f a < (f b :: nat)"
    and "js_sort cmp xs = c # rest"
  shows "c \<in> set xs \<and> (\<forall>c' \<in> set xs. f c \<le> f c')"
proof -
  have s: "sorted_wrt (\<lambda>a b. f a \<le> f b) (c # rest)"
    using sorted_js_sort[where cmp = cmp and f = f and xs = xs, OF assms(1)] assms(2) by simp
  have m: "set (c # rest) = set xs"
    using arg_cong[OF mset_js_sort[of cmp xs], of set_mset] assms(2) by simp
  from s m show ?thesis by auto
qed

lemma priority_rank_listed:
  "chal_type c \<in> set p \<Longrightarrow>
     int (priority_rank p c) = indexOf p (chal_type c) \<and> priority_rank p c < length p"
  using indexOf_nonneg[of "chal_type c" p] by (auto simp: priority_rank_def)

lemma priority_rank_unlisted:
  "chal_type c \<notin> set p \<Longrightarrow> priority_rank p c = length p"
  by (simp add: priority_rank_def)

text \<open>
  The sort of the model is the stable sort: with a comparator whose test \<^verbatim>\<open>order < 0\<close> is
  the comparison of a rank, it is the library's stable sort by that rank.
\<close>

lemma filter_insert_sorted:
  assumes "\<And>a b. cmp a b < 0 \<longleftrightarrow> f a < (f b :: nat)"
    and "sorted_wrt (\<lambda>a b. f a \<le> f b) ys"
  shows "filter (\<lambda>y. f y = k) (insert_sorted cmp x ys) =
     filter (\<lambda>y. f y = k) ys @ (if f x = k then [x] else [])"
  using assms(2)
proof (induction ys)
  case Nil
  then show ?case by simp
next
  case (Cons y ys)
  show ?case
  proof (cases "cmp x y < 0")
    case True
    then have "f x < f y" by (simp add: assms(1))
    moreover have "\<forall>z \<in> set ys. f y \<le> f z" using Cons.prems by simp
    ultimately have "filter (\<lambda>y. f y = f x) (y # ys) = []"
      by (auto simp: filter_empty_conv)
    then show ?thesis
      using True by (cases "f x = k") auto
  next
    case False
    then show ?thesis using Cons by simp
  qed
qed

lemma filter_foldl_insert_sorted:
  assumes "\<And>a b. cmp a b < 0 \<longleftrightarrow> f a < (f b :: nat)"
  shows "sorted_wrt (\<lambda>a b. f a \<le> f b) acc \<Longrightarrow>
     filter (\<lambda>y. f y = k) (foldl (\<lambda>acc x. insert_sorted cmp x acc) acc xs) =
       filter (\<lambda>y. f y = k) acc @ filter (\<lambda>y. f y = k) xs"
proof (induction xs arbitrary: acc)
  case Nil
  then show ?case by simp
next
  case (Cons x xs)
  have "sorted_wrt (\<lambda>a b. f a \<le> f b) (insert_sorted cmp x acc)"
    using sorted_insert_sorted[where cmp = cmp and f = f, OF assms] Cons.prems by blast
  then show ?case
    using Cons.IH[of "insert_sorted cmp x acc"]
      filter_insert_sorted[where cmp = cmp and f = f, OF assms Cons.prems]
    by simp
qed

lemma js_sort_sort_key:
  assumes "\<And>a b. cmp a b < 0 \<longleftrightarrow> f a < (f b :: nat)"
  shows "js_sort cmp xs = sort_key f xs"
proof (rule properties_for_sort_key[symmetric])
  show "mset (js_sort cmp xs) = mset xs"
    by (rule mset_js_sort)
  show "filter (\<lambda>x. f k = f x) (js_sort cmp xs) = filter (\<lambda>x. f k = f x) xs" for k
    using filter_foldl_insert_sorted[where cmp = cmp and f = f and acc = "[]" and xs = xs
        and k = "f k", OF assms]
    by (simp add: js_sort_def eq_commute)
  show "sorted (map f (js_sort cmp xs))"
    using sorted_js_sort[where cmp = cmp and f = f and xs = xs, OF assms]
    by (simp add: sorted_map)
qed

lemma js_sort_by_priority:
  "js_sort (compareFn prio) cs = sort_key (priority_rank prio) cs"
  by (rule js_sort_sort_key) (rule compareFn_less)

lemma select_challenge_sorted:
  "js_sort (compareFn prio) (challenges a) = c # rest \<Longrightarrow>
     select_challenge prio a = Inr (sorted_authz prio a, c)"
  by (simp add: select_challenge_def sorted_authz_def)

subsection \<open>Challenge selection\<close>

text \<open>
  C3.  For every priority list and every authorization: when the authorization has no
  challenge, selection throws an error that names the domain; otherwise it returns one of
  the authorization's challenges, and
  \<^item> if the type of some challenge of the authorization is in the priority list, the
    type of the selected one is in the list too, at the lowest index that any challenge
    of the authorization reaches;
  \<^item> if no type of the authorization's challenges is in the priority list, the selected
    challenge is the first one in the authorization's original order.
\<close>

theorem challenge_selection_by_priority:
  "(challenges a = [] \<longrightarrow>
      select_challenge prio a =
        Inl (new_Error (''Unable to select challenge for '' @ id_value (authz_identifier a) @
               '', no challenge found'')))
   \<and> (\<forall>c0 cs. challenges a = c0 # cs \<longrightarrow>
        (\<exists>a' c. select_challenge prio a = Inr (a', c) \<and> c \<in> set (challenges a)
           \<and> (\<forall>c' \<in> set (challenges a). chal_type c' \<in> set prio \<longrightarrow>
                 chal_type c \<in> set prio \<and>
                 indexOf prio (chal_type c) \<le> indexOf prio (chal_type c'))
           \<and> ((\<forall>c' \<in> set (challenges a). chal_type c' \<notin> set prio) \<longrightarrow> c = c0)))"
proof (intro conjI allI impI)
  assume "challenges a = []"
  then show "select_challenge prio a =
        Inl (new_Error (''Unable to select challenge for '' @ id_value (authz_identifier a) @
               '', no challenge found''))"
    by (simp add: select_challenge_def js_sort_def)
next
  fix c0 cs
  assume ne: "challenges a = c0 # cs"
  then have "js_sort (compareFn prio) (challenges a) \<noteq> []"
    by (simp add: js_sort_Nil_iff)
  then obtain c rest where sorted: "js_sort (compareFn prio) (challenges a) = c # rest"
    by (cases "js_sort (compareFn prio) (challenges a)") auto
  have sel: "select_challenge prio a = Inr (sorted_authz prio a, c)"
    by (rule select_challenge_sorted[OF sorted])
  have least: "c \<in> set (challenges a) \<and>
      (\<forall>c' \<in> set (challenges a). priority_rank prio c \<le> priority_rank prio c')"
    by (rule head_js_sort_least[where cmp = "compareFn prio" and f = "priority_rank prio",
          OF compareFn_less sorted])
  have listed:
    "chal_type c \<in> set prio \<and> indexOf prio (chal_type c) \<le> indexOf prio (chal_type c')"
    if "c' \<in> set (challenges a)" "chal_type c' \<in> set prio" for c'
  proof -
    have le: "priority_rank prio c \<le> priority_rank prio c'"
      using least that(1) by blast
    have c': "int (priority_rank prio c') = indexOf prio (chal_type c')"
      "priority_rank prio c' < length prio"
      using priority_rank_listed[OF that(2)] by auto
    have in_p: "chal_type c \<in> set prio"
      using le c'(2) priority_rank_unlisted[of c prio] by fastforce
    then have "int (priority_rank prio c) = indexOf prio (chal_type c)"
      using priority_rank_listed by blast
    with le c'(1) in_p show ?thesis by linarith
  qed
  have unlisted: "c = c0" if "\<forall>c' \<in> set (challenges a). chal_type c' \<notin> set prio"
  proof -
    have "\<forall>x \<in> set (challenges a). \<forall>y \<in> set (challenges a). \<not> compareFn prio x y < 0"
      using that by (simp add: compareFn_less priority_rank_unlisted)
    then have "js_sort (compareFn prio) (challenges a) = challenges a"
      by (rule js_sort_unchanged)
    with sorted ne show ?thesis by simp
  qed
  show "\<exists>a' c. select_challenge prio a = Inr (a', c) \<and> c \<in> set (challenges a)
           \<and> (\<forall>c' \<in> set (challenges a). chal_type c' \<in> set prio \<longrightarrow>
                 chal_type c \<in> set prio \<and>
                 indexOf prio (chal_type c) \<le> indexOf prio (chal_type c'))
           \<and> ((\<forall>c' \<in> set (challenges a). chal_type c' \<notin> set prio) \<longrightarrow> c = c0)"
    using sel least listed unlisted by blast
qed

theorem challenge_selection_by_priority_witness:
  "challenges (ex_authz ''example.com'' [ex_tls, ex_dns, ex_http]) = ex_tls # [ex_dns, ex_http]
   \<and> chal_type ex_http \<in> set [''http-01'', ''dns-01'']
   \<and> select_challenge [''http-01'', ''dns-01'']
         (ex_authz ''example.com'' [ex_tls, ex_dns, ex_http])
       = Inr (ex_authz ''example.com'' [ex_http, ex_dns, ex_tls], ex_http)
   \<and> challenges (ex_authz ''example.com'' [ex_tls, ex_http]) = ex_tls # [ex_http]
   \<and> select_challenge [''dns-01''] (ex_authz ''example.com'' [ex_tls, ex_http])
       = Inr (ex_authz ''example.com'' [ex_tls, ex_http], ex_tls)
   \<and> select_challenge [''http-01'', ''dns-01''] (ex_authz ''example.com'' [])
       = Inl (new_Error ''Unable to select challenge for example.com, no challenge found'')"
  using
    challenge_selection_by_priority
      [of "ex_authz ''example.com'' [ex_tls, ex_dns, ex_http]" "[''http-01'', ''dns-01'']"]
    challenge_selection_by_priority
      [of "ex_authz ''example.com'' [ex_tls, ex_http]" "[''dns-01'']"]
    challenge_selection_by_priority
      [of "ex_authz ''example.com'' []" "[''http-01'', ''dns-01'']"]
  by (simp add: select_challenge_def js_sort_def compareFn_def ex_authz_def ex_tls_def
        ex_dns_def ex_http_def)

subsection \<open>The events of each step\<close>

lemmas ex_defs = ex_forge_def ex_client_def ex_create_def ex_remove_def ex_opts_def
  defaultOpts_def ex_authz_def ex_http_def ex_dns_def ex_tls_def ex_info_def

lemmas run_defs = auto_inline_def auto_staged_def begin_order_def register_account_def
  place_order_def domains_of_def orderPayload_def inlineTask_def select_challenge_def
  js_sort_def compareFn_def remove_suppressed_def finalize_def verify_and_complete_def
  complete_and_wait_def staged_prepare_def provision_verify_cleanup_def challengeTask_def
  challengeCreatePromises_def createTask_def verify_phase_def verifyTask_def
  willRemovePromises_def removeTask_def new_Error_def error_toString_def
  make_accountPayload_def

lemma no_create_removals:
  "\<forall>ev \<in> set tr. \<not> is_create ev \<Longrightarrow>
     concat (map (removal_if_created o2) tr) = [] \<and> concat (map (removal_if_attempted o2) tr) = []"
proof (induction tr)
  case Nil
  then show ?case by simp
next
  case (Cons ev tr)
  then show ?case by (cases ev) simp_all
qed

lemma no_remove_logs:
  "\<forall>ev \<in> set tr. \<not> is_remove ev \<Longrightarrow> concat (map (removal_log o2) tr) = []"
proof (induction tr)
  case Nil
  then show ?case by simp
next
  case (Cons ev tr)
  then show ?case by (cases ev) simp_all
qed

lemma no_hook_authz:
  "\<forall>ev \<in> set tr. \<not> is_create ev \<and> \<not> is_remove ev \<Longrightarrow> List.map_filter hook_authz tr = []"
proof (induction tr)
  case Nil
  then show ?case by (simp add: List.map_filter_simps)
next
  case (Cons ev tr)
  then show ?case by (cases ev) (simp_all add: List.map_filter_simps)
qed

lemma register_account_events:
  "ev \<in> set (fst (register_account c o1)) \<Longrightarrow> plain_event ev \<and> \<not> is_createOrder ev"
  by (auto simp: register_account_def plain_event_def split: sum.splits)

lemma place_order_events:
  "ev \<in> set (fst (place_order f c b)) \<Longrightarrow> plain_event ev \<and> \<not> is_createAccount ev"
  by (auto simp: place_order_def plain_event_def Let_def split: sum.splits)

lemma register_account_events':
  "register_account c o1 = (t, r) \<Longrightarrow> ev \<in> set t \<Longrightarrow> plain_event ev \<and> \<not> is_createOrder ev"
  using register_account_events[of ev c o1] by simp

lemma place_order_events':
  "place_order f c b = (t, r) \<Longrightarrow> ev \<in> set t \<Longrightarrow> plain_event ev \<and> \<not> is_createAccount ev"
  using place_order_events[of ev f c b] by simp

lemma begin_order_events:
  "ev \<in> set (fst (begin_order f c o1)) \<Longrightarrow> plain_event ev"
  by (auto simp: begin_order_def split: option.splits prod.splits sum.splits
      dest: register_account_events' place_order_events')

lemma begin_order_events':
  "begin_order f c o1 = (t, r) \<Longrightarrow> ev \<in> set t \<Longrightarrow> plain_event ev"
  using begin_order_events[of ev f c o1] by simp

lemma challengeTask_events:
  "ev \<in> set (fst (challengeTask c o1 a)) \<Longrightarrow> plain_event ev \<and> late_event ev"
  by (auto simp: challengeTask_def plain_event_def late_event_def split: sum.splits prod.splits)

lemma finalize_events:
  "ev \<in> set (fst (finalize c o1 order b)) \<Longrightarrow> plain_event ev \<and> late_event ev"
  by (auto simp: finalize_def plain_event_def late_event_def split: sum.splits)

lemma complete_and_wait_events:
  "ev \<in> set (fst (complete_and_wait c ch)) \<Longrightarrow>
     \<not> is_create ev \<and> \<not> is_remove ev \<and> \<not> is_logInfo ev \<and> late_event ev"
  by (auto simp: complete_and_wait_def late_event_def split: sum.splits)

lemma verify_and_complete_events:
  "ev \<in> set (fst (verify_and_complete c o1 a ch)) \<Longrightarrow>
     \<not> is_create ev \<and> \<not> is_remove ev \<and> \<not> is_logInfo ev \<and> late_event ev"
  using complete_and_wait_events[of ev c ch]
  by (auto simp: verify_and_complete_def late_event_def split: sum.splits if_splits)

lemma staged_prepare_events:
  "ev \<in> set (fst (staged_prepare f c o1)) \<Longrightarrow> plain_event ev"
  by (auto simp: staged_prepare_def Let_def split: prod.splits sum.splits
      dest: begin_order_events' challengeTask_events)

lemma verify_phase_events:
  "ev \<in> set (fst (verify_phase c o1 items)) \<Longrightarrow>
     \<not> is_create ev \<and> \<not> is_remove ev \<and> \<not> is_logInfo ev \<and> late_event ev"
  by (auto simp: verify_phase_def verifyTask_def Let_def late_event_def
      split: list.splits sum.splits dest: verify_and_complete_events)

lemma createTask_create_calls:
  "filter is_create (fst (createTask o1 i info)) = [create_call info]"
  by (simp add: createTask_def create_call_def split: sum.splits)

lemma createTask_events:
  "ev \<in> set (fst (createTask o1 i info)) \<Longrightarrow>
     \<not> is_remove ev \<and> \<not> is_verification ev \<and> \<not> is_logInfo ev \<and> late_event ev"
  by (auto simp: createTask_def late_event_def split: sum.splits)

lemma createTask_removals:
  "concat (map (removal_if_created o1) (fst (createTask o1 i info))) =
     map remove_call (provisioned [snd (createTask o1 i info)])"
  by (simp add: createTask_def remove_call_def split: sum.splits)

lemma creates_create_calls:
  "filter is_create (concat (map fst (map (\<lambda>(i, info). createTask o1 i info) (enumerate n infos))))
     = map create_call infos"
  by (induction infos arbitrary: n) (simp_all add: createTask_create_calls)

lemma provisioned_Cons: "provisioned (x # rest) = provisioned [x] @ provisioned rest"
  by (cases x) simp_all

lemma creates_removals:
  "concat (map (removal_if_created o1)
      (concat (map fst (map (\<lambda>(i, info). createTask o1 i info) (enumerate n infos)))))
     = map remove_call
         (provisioned (map snd (map (\<lambda>(i, info). createTask o1 i info) (enumerate n infos))))"
proof (induction infos arbitrary: n)
  case Nil
  then show ?case by simp
next
  case (Cons info infos)
  let ?rest = "map (\<lambda>(i, info). createTask o1 i info) (enumerate (Suc n) infos)"
  have "concat (map (removal_if_created o1)
      (concat (map fst (map (\<lambda>(i, info). createTask o1 i info) (enumerate n (info # infos))))))
    = concat (map (removal_if_created o1) (fst (createTask o1 n info))) @
      concat (map (removal_if_created o1) (concat (map fst ?rest)))"
    by simp
  also have "\<dots> = map remove_call (provisioned [snd (createTask o1 n info)]) @
      map remove_call (provisioned (map snd ?rest))"
    by (simp only: createTask_removals Cons.IH)
  also have "\<dots> = map remove_call (provisioned (snd (createTask o1 n info) # map snd ?rest))"
    using provisioned_Cons[of "snd (createTask o1 n info)" "map snd ?rest"] by simp
  finally show ?case by simp
qed

lemma creates_events:
  "ev \<in> set (concat (map fst (challengeCreatePromises o1 infos))) \<Longrightarrow>
     \<not> is_remove ev \<and> \<not> is_verification ev \<and> \<not> is_logInfo ev \<and> late_event ev"
  by (auto simp: challengeCreatePromises_def dest: createTask_events)

lemma removeTask_remove_calls:
  "filter is_remove (removeTask o1 i info) = [remove_call info]"
  by (simp add: removeTask_def remove_suppressed_def remove_call_def split: sum.splits)

lemma removeTask_events:
  "ev \<in> set (removeTask o1 i info) \<Longrightarrow>
     \<not> is_create ev \<and> \<not> is_verification ev \<and> late_event ev"
  by (auto simp: removeTask_def remove_suppressed_def late_event_def split: sum.splits)

lemma removes_remove_calls:
  "filter is_remove (concat (map (\<lambda>(i, info). removeTask o1 i info) (enumerate n infos)))
     = map remove_call infos"
  by (induction infos arbitrary: n) (simp_all add: removeTask_remove_calls)

lemma removes_events:
  "ev \<in> set (concat (willRemovePromises o1 items)) \<Longrightarrow>
     \<not> is_create ev \<and> \<not> is_verification ev \<and> late_event ev"
  by (auto simp: willRemovePromises_def dest: removeTask_events)

lemma provision_verify_cleanup_remove_calls:
  "filter is_remove (fst (provision_verify_cleanup c o1 infos)) =
     map remove_call (provisioned (map snd (challengeCreatePromises o1 infos)))"
proof -
  have a: "filter is_remove (concat (map fst (challengeCreatePromises o1 infos))) = []"
    using creates_events[of _ o1 infos] by (simp add: filter_empty_conv)
  have b: "filter is_remove (fst (verify_phase c o1 items)) = []" for items
    using verify_phase_events[of _ c o1 items] by (simp add: filter_empty_conv)
  show ?thesis
    by (simp add: provision_verify_cleanup_def Let_def a b willRemovePromises_def
        removes_remove_calls)
qed

lemma provision_verify_cleanup_removals:
  "concat (map (removal_if_created o1) (fst (provision_verify_cleanup c o1 infos))) =
     map remove_call (provisioned (map snd (challengeCreatePromises o1 infos)))"
proof -
  have b: "concat (map (removal_if_created o1) (fst (verify_phase c o1 items))) = []" for items
    using verify_phase_events[of _ c o1 items] no_create_removals by blast
  have d: "concat (map (removal_if_created o1) (concat (willRemovePromises o1 items))) = []"
    for items
    using removes_events[of _ o1 items] no_create_removals by blast
  show ?thesis
    using creates_removals[of o1 0 infos]
    by (simp add: provision_verify_cleanup_def Let_def b d challengeCreatePromises_def)
qed

lemma plain_events_quiet:
  assumes "\<And>ev. ev \<in> set tr \<Longrightarrow> plain_event ev"
  shows "filter is_create tr = []" "filter is_remove tr = []" "filter is_verification tr = []"
    "filter is_logInfo tr = []"
    "concat (map (removal_if_created o2) tr) = []"
    "concat (map (removal_if_attempted o2) tr) = []"
    "concat (map (removal_log o2) tr) = []"
  using assms no_create_removals[of tr o2] no_remove_logs[of tr o2]
  by (auto simp: plain_event_def filter_empty_conv)

lemmas staged_prepare_quiet = plain_events_quiet[OF staged_prepare_events]
lemmas begin_order_quiet = plain_events_quiet[OF begin_order_events]
lemmas finalize_quiet = plain_events_quiet[OF conjunct1[OF finalize_events]]

lemma auto_staged_events:
  "fst (auto_staged f c o1) =
     fst (staged_prepare f c o1) @
     (case snd (staged_prepare f c o1) of
        Inl _ \<Rightarrow> []
      | Inr (b, order, infos) \<Rightarrow>
          fst (provision_verify_cleanup c o1 infos) @
          (case snd (provision_verify_cleanup c o1 infos) of
             Inl _ \<Rightarrow> []
           | Inr _ \<Rightarrow> fst (finalize c o1 order b)))"
  by (simp add: auto_staged_def split: prod.splits sum.splits)

lemma staged_remove_calls:
  "remove_calls (fst (auto_staged f c o1)) =
     (case snd (staged_prepare f c o1) of
        Inl _ \<Rightarrow> []
      | Inr (b, order, infos) \<Rightarrow>
          map remove_call (provisioned (map snd (challengeCreatePromises o1 infos))))"
proof -
  show ?thesis
    by (simp add: auto_staged_events remove_calls_def staged_prepare_quiet finalize_quiet
        provision_verify_cleanup_remove_calls split: sum.splits)
qed

lemma staged_removals_for_created:
  "removals_for_created o1 (fst (auto_staged f c o1)) =
     (case snd (staged_prepare f c o1) of
        Inl _ \<Rightarrow> []
      | Inr (b, order, infos) \<Rightarrow>
          map remove_call (provisioned (map snd (challengeCreatePromises o1 infos))))"
proof -
  show ?thesis
    by (simp add: auto_staged_events removals_for_created_def staged_prepare_quiet
        finalize_quiet provision_verify_cleanup_removals split: sum.splits
        del: concat_eq_Nil_conv)
qed

lemma verify_and_complete_quiet:
  "filter is_remove (fst (verify_and_complete c o1 a ch)) = []"
  "filter is_create (fst (verify_and_complete c o1 a ch)) = []"
  "filter is_logInfo (fst (verify_and_complete c o1 a ch)) = []"
  "concat (map (removal_if_attempted o2) (fst (verify_and_complete c o1 a ch))) = []"
  "concat (map (removal_if_created o2) (fst (verify_and_complete c o1 a ch))) = []"
  "concat (map (removal_log o2) (fst (verify_and_complete c o1 a ch))) = []"
  using verify_and_complete_events[of _ c o1 a ch]
    no_create_removals[of "fst (verify_and_complete c o1 a ch)" o2]
    no_remove_logs[of "fst (verify_and_complete c o1 a ch)" o2]
  by (auto simp: filter_empty_conv)

lemma remove_suppressed_quiet:
  "filter is_remove (remove_suppressed o1 d a ch k r) = [ChallengeRemoveFn a ch k r]"
  "filter is_create (remove_suppressed o1 d a ch k r) = []"
  "concat (map (removal_if_attempted o2) (remove_suppressed o1 d a ch k r)) = []"
  "concat (map (removal_if_created o2) (remove_suppressed o1 d a ch k r)) = []"
  by (auto simp: remove_suppressed_def split: sum.splits)

lemma inlineTask_remove_calls:
  "filter is_remove (fst (inlineTask c o1 a)) =
     concat (map (removal_if_attempted o1) (fst (inlineTask c o1 a)))"
  by (simp add: inlineTask_def verify_and_complete_quiet remove_suppressed_quiet
      split: sum.splits prod.splits)

lemma inline_tasks_remove_calls:
  "filter is_remove (concat (map fst (map (inlineTask c o1) auths))) =
     concat (map (removal_if_attempted o1) (concat (map fst (map (inlineTask c o1) auths))))"
  by (induction auths) (simp_all add: inlineTask_remove_calls del: map_map)

lemma auto_inline_events:
  "fst (auto_inline f c o1) =
     fst (begin_order f c o1) @
     (case snd (begin_order f c o1) of
        Inl _ \<Rightarrow> []
      | Inr (b, order, auths) \<Rightarrow>
          concat (map fst (map (inlineTask c o1) auths)) @
          (case promise_all (map snd (map (inlineTask c o1) auths)) of
             Inl e \<Rightarrow> [LogError e]
           | Inr _ \<Rightarrow> fst (finalize c o1 order b)))"
  by (simp add: auto_inline_def Let_def split: prod.splits sum.splits)

lemma inline_remove_calls:
  "remove_calls (fst (auto_inline f c o1)) = removals_for_attempted o1 (fst (auto_inline f c o1))"
proof -
  show ?thesis
    by (simp add: auto_inline_events remove_calls_def removals_for_attempted_def
        begin_order_quiet finalize_quiet inline_tasks_remove_calls
        split: sum.splits del: map_map concat_eq_Nil_conv)
qed

lemma createTask_outcome:
  "snd (createTask o1 i info) =
     (case challengeCreateFn o1 (authz info) (challenge info) (keyAuthorization info) of
        Inl e \<Rightarrow> Inl e
      | Inr r \<Rightarrow> Inr (info\<lparr>record_handle := r\<rparr>))"
  by (simp add: createTask_def split: sum.splits)

lemma creates_outcomes:
  "map snd (map (\<lambda>(i, info). createTask o1 i info) (enumerate n infos)) =
     map (\<lambda>info. case challengeCreateFn o1 (authz info) (challenge info) (keyAuthorization info) of
        Inl e \<Rightarrow> Inl e
      | Inr r \<Rightarrow> Inr (info\<lparr>record_handle := r\<rparr>)) infos"
  by (induction infos arbitrary: n) (simp_all add: createTask_outcome)

lemma provision_verify_cleanup_create_calls:
  "filter is_create (fst (provision_verify_cleanup c o1 infos)) = map create_call infos"
proof -
  have b: "filter is_create (fst (verify_phase c o1 items)) = []" for items
    using verify_phase_events[of _ c o1 items] by (simp add: filter_empty_conv)
  have d: "filter is_create (concat (willRemovePromises o1 items)) = []" for items
    using removes_events[of _ o1 items] by (simp add: filter_empty_conv)
  show ?thesis
    using creates_create_calls[of o1 0 infos]
    by (simp add: provision_verify_cleanup_def Let_def b d challengeCreatePromises_def)
qed

lemma staged_create_calls:
  "create_calls (fst (auto_staged f c o1)) =
     (case snd (staged_prepare f c o1) of
        Inl _ \<Rightarrow> []
      | Inr (b, order, infos) \<Rightarrow> map create_call infos)"
  by (simp add: auto_staged_events create_calls_def staged_prepare_quiet finalize_quiet
        provision_verify_cleanup_create_calls split: sum.splits)

lemma verify_phase_hasError:
  "hasError items = e # es \<Longrightarrow>
     verify_phase c o1 items =
       ([LogError (new_Error (error_toString e))], Inl (new_Error (error_toString e)))"
  by (simp add: verify_phase_def)

lemma provision_verify_cleanup_hasError:
  assumes "hasError (map snd (challengeCreatePromises o1 infos)) = e # es"
  shows "snd (provision_verify_cleanup c o1 infos) = Inl (new_Error (error_toString e))"
    and "filter is_verification (fst (provision_verify_cleanup c o1 infos)) = []"
proof -
  have a: "filter is_verification (concat (map fst (challengeCreatePromises o1 infos))) = []"
    using creates_events[of _ o1 infos] by (simp add: filter_empty_conv)
  have d: "filter is_verification (concat (willRemovePromises o1 items)) = []" for items
    using removes_events[of _ o1 items] by (simp add: filter_empty_conv)
  show "snd (provision_verify_cleanup c o1 infos) = Inl (new_Error (error_toString e))"
    by (simp add: provision_verify_cleanup_def Let_def verify_phase_hasError[OF assms])
  show "filter is_verification (fst (provision_verify_cleanup c o1 infos)) = []"
    by (simp add: provision_verify_cleanup_def Let_def verify_phase_hasError[OF assms] a d)
qed

lemma auto_staged_outcome:
  "snd (auto_staged f c o1) =
     (case snd (staged_prepare f c o1) of
        Inl e \<Rightarrow> Inl e
      | Inr (b, order, infos) \<Rightarrow>
          (case snd (provision_verify_cleanup c o1 infos) of
             Inl e \<Rightarrow> Inl e
           | Inr _ \<Rightarrow> snd (finalize c o1 order b)))"
  by (simp add: auto_staged_def split: prod.splits sum.splits)


lemma sorted_authz_identifier [simp]:
  "authz_identifier (sorted_authz prio a) = authz_identifier a"
  by (simp add: sorted_authz_def)
























subsection \<open>Removal after creation\<close>

text \<open>
  C1, as the code has it.  In every run of the staged orchestrator the calls of
  \<^verbatim>\<open>challengeRemoveFn\<close> are exactly one for every call of \<^verbatim>\<open>challengeCreateFn\<close> that
  returned, with the same arguments and the record it returned, and none for a call that
  threw; this holds whatever verification and completion did.  In every run of the inline
  orchestrator the calls of \<^verbatim>\<open>challengeRemoveFn\<close> are exactly one for every call of
  \<^verbatim>\<open>challengeCreateFn\<close>, whether it returned or threw (without a record when it threw).
  Calls are counted as a multiset, so that nothing depends on the order in which the
  tasks of the domains reach their hooks.
\<close>

theorem removal_follows_creation:
  "mset (remove_calls (fst (auto_staged f c opts))) =
     mset (removals_for_created opts (fst (auto_staged f c opts)))
   \<and> mset (remove_calls (fst (auto_inline f c opts))) =
       mset (removals_for_attempted opts (fst (auto_inline f c opts)))"
  by (simp add: staged_remove_calls staged_removals_for_created inline_remove_calls)

theorem removal_follows_creation_witness:
  "remove_calls (fst (auto_staged (ex_forge ''a.com'' [''b.com''])
      (ex_client (Inr ''acct-1'') [ex_authz ''a.com'' [ex_dns, ex_http], ex_authz ''b.com'' [ex_dns]])
      (ex_opts [''a.com''] [])))
     = [ChallengeRemoveFn (ex_authz ''b.com'' [ex_dns]) ex_dns ''tok-d.thumb''
          (Some ''record-b.com'')]
   \<and> removals_for_created (ex_opts [''a.com''] [])
       (fst (auto_staged (ex_forge ''a.com'' [''b.com''])
         (ex_client (Inr ''acct-1'')
            [ex_authz ''a.com'' [ex_dns, ex_http], ex_authz ''b.com'' [ex_dns]])
         (ex_opts [''a.com''] [])))
     = [ChallengeRemoveFn (ex_authz ''b.com'' [ex_dns]) ex_dns ''tok-d.thumb''
          (Some ''record-b.com'')]
   \<and> remove_calls (fst (auto_inline (ex_forge ''a.com'' [''b.com''])
      (ex_client (Inr ''acct-1'') [ex_authz ''a.com'' [ex_dns, ex_http], ex_authz ''b.com'' [ex_dns]])
      (ex_opts [''a.com''] [])))
     = [ChallengeRemoveFn (ex_authz ''a.com'' [ex_http, ex_dns]) ex_http ''tok-h.thumb'' None,
        ChallengeRemoveFn (ex_authz ''b.com'' [ex_dns]) ex_dns ''tok-d.thumb''
          (Some ''record-b.com'')]"
  using removal_follows_creation[of "ex_forge ''a.com'' [''b.com'']"
      "ex_client (Inr ''acct-1'') [ex_authz ''a.com'' [ex_dns, ex_http], ex_authz ''b.com'' [ex_dns]]"
      "ex_opts [''a.com''] []"]
  by (simp add: ex_defs run_defs remove_calls_def removals_for_created_def Let_def)

text \<open>
  The specification has the remove hook never called for a domain whose creation failed.
  That does not hold for the inline orchestrator: there the removal sits in a
  \<^verbatim>\<open>finally\<close> block around the creation, so a domain whose creation threw has its
  remove hook called all the same.
\<close>

theorem removal_after_failed_creation_counterexample:
  "challengeCreateFn (ex_opts [''a.com''] []) (ex_authz ''a.com'' [ex_http, ex_dns]) ex_http
      ''tok-h.thumb'' = Inl (new_Error ''no record for a.com'')
   \<and> create_calls (fst (auto_inline (ex_forge ''a.com'' [])
        (ex_client (Inr ''acct-1'') [ex_authz ''a.com'' [ex_dns, ex_http]])
        (ex_opts [''a.com''] [])))
     = [ChallengeCreateFn (ex_authz ''a.com'' [ex_http, ex_dns]) ex_http ''tok-h.thumb'']
   \<and> remove_calls (fst (auto_inline (ex_forge ''a.com'' [])
        (ex_client (Inr ''acct-1'') [ex_authz ''a.com'' [ex_dns, ex_http]])
        (ex_opts [''a.com''] [])))
     = [ChallengeRemoveFn (ex_authz ''a.com'' [ex_http, ex_dns]) ex_http ''tok-h.thumb'' None]"
  by (simp add: ex_defs run_defs remove_calls_def create_calls_def Let_def)

subsection \<open>Failures of provisioning\<close>

text \<open>
  C2, as the code has it.  Take a run of the staged orchestrator that reaches
  provisioning.  The create hook is then called once for every domain, whatever the calls
  for other domains do, and a call that throws leaves its error as the value of its
  task.  If some call threw, the run ends with a new \<^verbatim>\<open>Error\<close> whose message is the string
  form of the first captured error (\<^verbatim>\<open>throw new Error(hasError[0])\<close>), not with the
  captured error itself; nothing is verified or completed; and the remove hook is still
  called for every record that was created.
\<close>

theorem provisioning_failure_aborts:
  assumes "snd (staged_prepare f c opts) = Inr (b, order, infos)"
  shows "create_calls (fst (auto_staged f c opts)) = map create_call infos
    \<and> map snd (challengeCreatePromises opts infos) =
        map (\<lambda>info.
          case challengeCreateFn opts (authz info) (challenge info) (keyAuthorization info) of
            Inl e \<Rightarrow> Inl e
          | Inr r \<Rightarrow> Inr (info\<lparr>record_handle := r\<rparr>)) infos
    \<and> (\<forall>e es. hasError (map snd (challengeCreatePromises opts infos)) = e # es \<longrightarrow>
          snd (auto_staged f c opts) = Inl (new_Error (error_toString e))
          \<and> filter is_verification (fst (auto_staged f c opts)) = []
          \<and> remove_calls (fst (auto_staged f c opts)) =
              map remove_call (provisioned (map snd (challengeCreatePromises opts infos))))"
proof (intro conjI allI impI)
  show "create_calls (fst (auto_staged f c opts)) = map create_call infos"
    by (simp add: staged_create_calls assms)
  show "map snd (challengeCreatePromises opts infos) =
        map (\<lambda>info.
          case challengeCreateFn opts (authz info) (challenge info) (keyAuthorization info) of
            Inl e \<Rightarrow> Inl e
          | Inr r \<Rightarrow> Inr (info\<lparr>record_handle := r\<rparr>)) infos"
    unfolding challengeCreatePromises_def by (rule creates_outcomes)
next
  fix e es
  assume h: "hasError (map snd (challengeCreatePromises opts infos)) = e # es"
  show "snd (auto_staged f c opts) = Inl (new_Error (error_toString e))"
    using assms provision_verify_cleanup_hasError(1)[OF h, of c]
    by (simp add: auto_staged_outcome)
  show "filter is_verification (fst (auto_staged f c opts)) = []"
    using assms provision_verify_cleanup_hasError[OF h, of c]
    by (simp add: auto_staged_events staged_prepare_quiet)
  show "remove_calls (fst (auto_staged f c opts)) =
      map remove_call (provisioned (map snd (challengeCreatePromises opts infos)))"
    by (simp add: staged_remove_calls assms)
qed

theorem provisioning_failure_aborts_witness:
  "snd (staged_prepare (ex_forge ''a.com'' [''b.com'', ''c.com''])
      (ex_client (Inr ''acct-1'')
         [ex_authz ''a.com'' [ex_dns], ex_authz ''b.com'' [ex_dns], ex_authz ''c.com'' [ex_dns]])
      (ex_opts [''a.com'', ''c.com''] []))
     = Inr (''csr'', ''order-1'',
         [ex_info ''a.com'' ex_dns, ex_info ''b.com'' ex_dns, ex_info ''c.com'' ex_dns])
   \<and> hasError (map snd (challengeCreatePromises (ex_opts [''a.com'', ''c.com''] [])
        [ex_info ''a.com'' ex_dns, ex_info ''b.com'' ex_dns, ex_info ''c.com'' ex_dns]))
     = [new_Error ''no record for a.com'', new_Error ''no record for c.com'']
   \<and> create_calls (fst (auto_staged (ex_forge ''a.com'' [''b.com'', ''c.com''])
      (ex_client (Inr ''acct-1'')
         [ex_authz ''a.com'' [ex_dns], ex_authz ''b.com'' [ex_dns], ex_authz ''c.com'' [ex_dns]])
      (ex_opts [''a.com'', ''c.com''] [])))
     = [create_call (ex_info ''a.com'' ex_dns), create_call (ex_info ''b.com'' ex_dns),
        create_call (ex_info ''c.com'' ex_dns)]
   \<and> snd (auto_staged (ex_forge ''a.com'' [''b.com'', ''c.com''])
      (ex_client (Inr ''acct-1'')
         [ex_authz ''a.com'' [ex_dns], ex_authz ''b.com'' [ex_dns], ex_authz ''c.com'' [ex_dns]])
      (ex_opts [''a.com'', ''c.com''] []))
     = Inl (new_Error ''Error: no record for a.com'')
   \<and> filter is_verification (fst (auto_staged (ex_forge ''a.com'' [''b.com'', ''c.com''])
      (ex_client (Inr ''acct-1'')
         [ex_authz ''a.com'' [ex_dns], ex_authz ''b.com'' [ex_dns], ex_authz ''c.com'' [ex_dns]])
      (ex_opts [''a.com'', ''c.com''] []))) = []
   \<and> remove_calls (fst (auto_staged (ex_forge ''a.com'' [''b.com'', ''c.com''])
      (ex_client (Inr ''acct-1'')
         [ex_authz ''a.com'' [ex_dns], ex_authz ''b.com'' [ex_dns], ex_authz ''c.com'' [ex_dns]])
      (ex_opts [''a.com'', ''c.com''] [])))
     = [remove_call ((ex_info ''b.com'' ex_dns)\<lparr>record_handle := Some ''record-b.com''\<rparr>)]"
proof -
  let ?f = "ex_forge ''a.com'' [''b.com'', ''c.com'']"
  let ?c = "ex_client (Inr ''acct-1'')
    [ex_authz ''a.com'' [ex_dns], ex_authz ''b.com'' [ex_dns], ex_authz ''c.com'' [ex_dns]]"
  let ?o = "ex_opts [''a.com'', ''c.com''] []"
  let ?infos = "[ex_info ''a.com'' ex_dns, ex_info ''b.com'' ex_dns, ex_info ''c.com'' ex_dns]"
  have prep: "snd (staged_prepare ?f ?c ?o) = Inr (''csr'', ''order-1'', ?infos)"
    by (simp add: ex_defs run_defs Let_def)
  have errs: "hasError (map snd (challengeCreatePromises ?o ?infos)) =
      [new_Error ''no record for a.com'', new_Error ''no record for c.com'']"
    by (simp add: ex_defs challengeCreatePromises_def createTask_def new_Error_def)
  have prov: "provisioned (map snd (challengeCreatePromises ?o ?infos)) =
      [(ex_info ''b.com'' ex_dns)\<lparr>record_handle := Some ''record-b.com''\<rparr>]"
    by (simp add: ex_defs challengeCreatePromises_def createTask_def new_Error_def)
  show ?thesis
    using provisioning_failure_aborts[OF prep] prep errs prov
    by (simp add: error_toString_def new_Error_def)
qed

text \<open>
  The specification has the run end with the first captured error.  The error thrown is
  another object, and its message differs.
\<close>

theorem provisioning_failure_rewrapped_counterexample:
  "hasError (map snd (challengeCreatePromises (ex_opts [''a.com''] [])
      [ex_info ''a.com'' ex_dns]))
     = [JsError ''Error'' ''no record for a.com'']
   \<and> snd (auto_staged (ex_forge ''a.com'' [])
        (ex_client (Inr ''acct-1'') [ex_authz ''a.com'' [ex_dns]]) (ex_opts [''a.com''] []))
     = Inl (JsError ''Error'' ''Error: no record for a.com'')
   \<and> snd (auto_staged (ex_forge ''a.com'' [])
        (ex_client (Inr ''acct-1'') [ex_authz ''a.com'' [ex_dns]]) (ex_opts [''a.com''] []))
     \<noteq> Inl (JsError ''Error'' ''no record for a.com'')"
  by (simp add: ex_defs run_defs Let_def)

subsection \<open>Failures of cleanup\<close>



subsection \<open>Verification over HTTP\<close>

lemma dropWhile_all_append:
  "\<forall>c \<in> set xs. P c \<Longrightarrow> dropWhile P (xs @ ys) = dropWhile P ys"
  by (induction xs) auto

lemma strip_append_space:
  "\<forall>c \<in> set ws. is_js_space c \<Longrightarrow> strip_trailing_space (s @ ws) = strip_trailing_space s"
  by (simp add: strip_trailing_space_def dropWhile_all_append)

lemma strip_idem: "strip_trailing_space (strip_trailing_space s) = strip_trailing_space s"
  by (simp add: strip_trailing_space_def dropWhile_idem)

lemma string_of_nat_examples:
  "string_of_nat 80 = ''80''" "string_of_nat 8080 = ''8080''"
  by (simp_all add: string_of_nat.simps digit_char_def)

text \<open>
  C5, as the code has it.  \<^verbatim>\<open>verifyHttpChallenge\<close> sends one GET to
  \<^verbatim>\<open>http://<domain>:<port>/.well-known/acme-challenge/<token>\<close>, the port being the
  configured one, or 80 when none is configured.  It succeeds if and only if the GET
  returns a response whose body, stripped of trailing white space, is not empty and equals
  the key authorization.  So a body that is a key authorization (not empty, not ending in
  white space) followed by white space is accepted; a response whose stripped body differs
  from the key authorization throws the error
  \<^verbatim>\<open>Authorization not found in HTTP response from <domain>\<close>.  An error of the GET itself is
  not turned into that error: it is thrown on as it is.
\<close>

theorem http_verification:
  "fst (verifyHttpChallenge ax a ch key None) =
     [HttpGet (challengeUrl ax a (''/.well-known/acme-challenge/'' @ token ch))]
   \<and> challengeUrl ax a (''/.well-known/acme-challenge/'' @ token ch) =
       ''http://'' @ id_value (authz_identifier a) @ '':'' @ string_of_nat (httpPort ax) @
       ''/.well-known/acme-challenge/'' @ token ch
   \<and> (httpChallengePort ax = None \<longrightarrow> httpPort ax = 80)
   \<and> (\<forall>p. httpChallengePort ax = Some p \<and> p \<noteq> 0 \<longrightarrow> httpPort ax = p)
   \<and> (snd (verifyHttpChallenge ax a ch key None) = Inr True \<longleftrightarrow>
        (\<exists>resp. axios_get ax (challengeUrl ax a (''/.well-known/acme-challenge/'' @ token ch))
                  = Inr resp
           \<and> strip_trailing_space (resp_data resp) = key \<and> key \<noteq> []))
   \<and> (\<forall>resp. axios_get ax (challengeUrl ax a (''/.well-known/acme-challenge/'' @ token ch))
                 = Inr resp
          \<and> strip_trailing_space (resp_data resp) \<noteq> key \<longrightarrow>
        snd (verifyHttpChallenge ax a ch key None) =
          Inl (new_Error (''Authorization not found in HTTP response from '' @
                 id_value (authz_identifier a))))
   \<and> (\<forall>resp ws. axios_get ax (challengeUrl ax a (''/.well-known/acme-challenge/'' @ token ch))
                 = Inr resp
          \<and> resp_data resp = key @ ws \<and> (\<forall>c \<in> set ws. is_js_space c)
          \<and> key \<noteq> [] \<and> strip_trailing_space key = key \<longrightarrow>
        snd (verifyHttpChallenge ax a ch key None) = Inr True)
   \<and> (\<forall>e. axios_get ax (challengeUrl ax a (''/.well-known/acme-challenge/'' @ token ch))
                 = Inl e \<longrightarrow>
        snd (verifyHttpChallenge ax a ch key None) = Inl e)"
  by (auto simp: verifyHttpChallenge_def challengeUrl_def httpPort_def Let_def strip_append_space
      split: sum.splits)

theorem http_verification_witness:
  "verifyHttpChallenge
      (ex_axios None (ex_get ''http://example.com:80/.well-known/acme-challenge/tok-h''
         (''tok-h.thumb'' @ [CHR 0x0D, CHR 0x0A, CHR '' ''])))
      (ex_authz ''example.com'' [ex_http]) ex_http ''tok-h.thumb'' None
     = ([HttpGet ''http://example.com:80/.well-known/acme-challenge/tok-h''], Inr True)
   \<and> challengeUrl (ex_axios (Some 8080) (ex_get [] [])) (ex_authz ''example.com'' [ex_http])
        (''/.well-known/acme-challenge/'' @ token ex_http)
     = ''http://example.com:8080/.well-known/acme-challenge/tok-h''
   \<and> verifyHttpChallenge
      (ex_axios None (ex_get ''http://example.com:80/.well-known/acme-challenge/tok-h''
         ''tok-h.thumB''))
      (ex_authz ''example.com'' [ex_http]) ex_http ''tok-h.thumb'' None
     = ([HttpGet ''http://example.com:80/.well-known/acme-challenge/tok-h''],
        Inl (new_Error ''Authorization not found in HTTP response from example.com''))
   \<and> verifyHttpChallenge (ex_axios None (ex_get [] []))
      (ex_authz ''example.com'' [ex_http]) ex_http ''tok-h.thumb'' None
     = ([HttpGet ''http://example.com:80/.well-known/acme-challenge/tok-h''],
        Inl (JsError ''Error'' ''getaddrinfo ENOTFOUND''))"
  using
    http_verification[of "ex_axios None (ex_get [] [])"
      "ex_authz ''example.com'' [ex_http]" ex_http "''tok-h.thumb''"]
    http_verification[of
      "ex_axios None (ex_get ''http://example.com:80/.well-known/acme-challenge/tok-h''
         (''tok-h.thumb'' @ [CHR 0x0D, CHR 0x0A, CHR '' '']))"
      "ex_authz ''example.com'' [ex_http]" ex_http "''tok-h.thumb''"]
    http_verification[of "ex_axios (Some 8080) (ex_get [] [])"
      "ex_authz ''example.com'' [ex_http]" ex_http "''tok-h.thumb''"]
    http_verification[of
      "ex_axios None (ex_get ''http://example.com:80/.well-known/acme-challenge/tok-h''
         ''tok-h.thumB'')"
      "ex_authz ''example.com'' [ex_http]" ex_http "''tok-h.thumb''"]
  by (simp add: verifyHttpChallenge_def challengeUrl_def httpPort_def ex_axios_def ex_get_def
      ex_authz_def ex_http_def string_of_nat_examples strip_trailing_space_def is_js_space_def
      new_Error_def)

text \<open>
  The specification has every network error raise a verification failure that names the
  domain, and has verification succeed whenever the stripped body equals the key
  authorization.  When the GET itself fails, the error thrown is the error of the HTTP
  client, which need not name the domain.  And an empty key authorization is rejected
  although the stripped body equals it.
\<close>

theorem http_verification_counterexample:
  "snd (verifyHttpChallenge
      (ex_axios None (\<lambda>_. Inl (JsError ''Error'' ''connect ECONNREFUSED 192.0.2.1:80'')))
      (ex_authz ''example.com'' [ex_http]) ex_http ''tok-h.thumb'' None)
     = Inl (JsError ''Error'' ''connect ECONNREFUSED 192.0.2.1:80'')
   \<and> strip_trailing_space ''  '' = []
   \<and> snd (verifyHttpChallenge
      (ex_axios None (ex_get ''http://example.com:80/.well-known/acme-challenge/tok-h'' ''  ''))
      (ex_authz ''example.com'' [ex_http]) ex_http [] None)
     = Inl (new_Error ''Authorization not found in HTTP response from example.com'')"
  by (simp add: verifyHttpChallenge_def challengeUrl_def httpPort_def ex_axios_def ex_get_def
      ex_authz_def ex_http_def string_of_nat_examples strip_trailing_space_def is_js_space_def
      new_Error_def)

subsection \<open>Verification over DNS\<close>





subsection \<open>Account and order\<close>

lemma late_events_quiet:
  assumes "\<And>ev. ev \<in> set tr \<Longrightarrow> late_event ev"
  shows "filter is_createAccount tr = []" "filter is_createOrder tr = []"
  using assms by (auto simp: late_event_def filter_empty_conv)

lemma inlineTask_events:
  "ev \<in> set (fst (inlineTask c o1 a)) \<Longrightarrow> late_event ev"
  by (auto simp: inlineTask_def remove_suppressed_def late_event_def
      split: sum.splits prod.splits dest: verify_and_complete_events)

lemma provision_verify_cleanup_events:
  assumes "ev \<in> set (fst (provision_verify_cleanup c o1 infos))"
  shows "late_event ev"
proof -
  let ?items = "map snd (challengeCreatePromises o1 infos)"
  from assms consider
    "ev \<in> set (concat (map fst (challengeCreatePromises o1 infos)))"
    | "ev \<in> set (fst (verify_phase c o1 ?items))"
    | "ev \<in> set (concat (willRemovePromises o1 ?items))"
    by (auto simp only: provision_verify_cleanup_def Let_def fst_conv set_append Un_iff)
  then show ?thesis
    by cases (blast dest: creates_events verify_phase_events removes_events)+
qed

lemma staged_prepare_split:
  "fst (staged_prepare f c o1) =
     fst (begin_order f c o1) @
     (case snd (begin_order f c o1) of
        Inl _ \<Rightarrow> []
      | Inr (b, order, auths) \<Rightarrow> concat (map fst (map (challengeTask c o1) auths)))"
  by (simp add: staged_prepare_def Let_def split: prod.splits sum.splits)

lemmas challengeTask_late = late_events_quiet[OF conjunct2[OF challengeTask_events]]
lemmas inlineTask_late = late_events_quiet[OF inlineTask_events]
lemmas provision_verify_cleanup_late = late_events_quiet[OF provision_verify_cleanup_events]
lemmas finalize_late = late_events_quiet[OF conjunct2[OF finalize_events]]

lemma challenge_tasks_late:
  "filter is_createAccount (concat (map fst (map (challengeTask c o1) auths))) = []"
  "filter is_createOrder (concat (map fst (map (challengeTask c o1) auths))) = []"
  by (induction auths) (simp_all add: challengeTask_late del: map_map)

lemma inline_tasks_late:
  "filter is_createAccount (concat (map fst (map (inlineTask c o1) auths))) = []"
  "filter is_createOrder (concat (map fst (map (inlineTask c o1) auths))) = []"
  by (induction auths) (simp_all add: inlineTask_late del: map_map)

lemma createAccount_calls:
  "filter is_createAccount (fst (auto_staged f c o1)) =
     filter is_createAccount (fst (begin_order f c o1))"
  "filter is_createAccount (fst (auto_inline f c o1)) =
     filter is_createAccount (fst (begin_order f c o1))"
  by (simp_all add: auto_staged_events staged_prepare_split auto_inline_events
      challenge_tasks_late inline_tasks_late provision_verify_cleanup_late finalize_late
      split: sum.splits del: map_map)

lemma createOrder_calls:
  "filter is_createOrder (fst (auto_staged f c o1)) =
     filter is_createOrder (fst (begin_order f c o1))"
  "filter is_createOrder (fst (auto_inline f c o1)) =
     filter is_createOrder (fst (begin_order f c o1))"
  by (simp_all add: auto_staged_events staged_prepare_split auto_inline_events
      challenge_tasks_late inline_tasks_late provision_verify_cleanup_late finalize_late
      split: sum.splits del: map_map)

lemmas place_order_no_createAccount =
  plain_events_quiet[OF conjunct1[OF place_order_events]]

lemma place_order_createAccount:
  "filter is_createAccount (fst (place_order f c b)) = []"
  using place_order_events[of _ f c b] by (auto simp: filter_empty_conv)

lemma register_account_createOrder:
  "filter is_createOrder (fst (register_account c o1)) = []"
  using register_account_events[of _ c o1] by (auto simp: filter_empty_conv)

lemma begin_order_events_split:
  "fst (begin_order f c o1) =
     (case csr o1 of
        None \<Rightarrow> []
      | Some b \<Rightarrow>
          fst (register_account c o1) @
          (case snd (register_account c o1) of
             Inl _ \<Rightarrow> []
           | Inr _ \<Rightarrow> fst (place_order f c b)))"
  by (simp add: begin_order_def split: option.splits prod.splits sum.splits)

lemma begin_order_createAccount:
  "filter is_createAccount (fst (begin_order f c o1)) =
     (case csr o1 of
        None \<Rightarrow> []
      | Some _ \<Rightarrow>
          (case getAccountUrl c of
             Inr _ \<Rightarrow> []
           | Inl _ \<Rightarrow> [CreateAccount (make_accountPayload o1)]))"
  by (simp add: begin_order_events_split place_order_createAccount register_account_def
      split: option.splits sum.splits)

lemma begin_order_createOrder:
  "csr o1 = Some b \<Longrightarrow> snd (register_account c o1) = Inr () \<Longrightarrow>
   readCsrDomains f b = Inr cd \<Longrightarrow>
     filter is_createOrder (fst (begin_order f c o1)) = [CreateOrder (orderPayload (domains_of cd))]"
  by (simp add: begin_order_events_split register_account_createOrder place_order_def Let_def
      split: sum.splits)

lemma registration_failure:
  assumes "csr o1 = Some b" "getAccountUrl c = Inl e"
    "createAccount c (make_accountPayload o1) = Inl e'"
  shows "auto_staged f c o1 = ([GetAccountUrl, CreateAccount (make_accountPayload o1)], Inl e')"
    and "auto_inline f c o1 = ([GetAccountUrl, CreateAccount (make_accountPayload o1)], Inl e')"
  using assms
  by (simp_all add: auto_staged_def staged_prepare_def auto_inline_def begin_order_def
      register_account_def)

text \<open>
  C7.  In both orchestrators: when \<^verbatim>\<open>getAccountUrl\<close> returns, \<^verbatim>\<open>createAccount\<close> is never
  called.  When it throws (the CSR being present, so that the run gets that far),
  \<^verbatim>\<open>createAccount\<close> is called exactly once, with the terms-of-service flag of the options
  and, when a non-empty email was given, the contact \<^verbatim>\<open>mailto:<email>\<close> (no contact when
  none was given); and if that call throws, the run ends there with its error.
\<close>

theorem account_registration:
  "(\<forall>u. getAccountUrl c = Inr u \<longrightarrow>
       filter is_createAccount (fst (auto_staged f c opts)) = []
       \<and> filter is_createAccount (fst (auto_inline f c opts)) = [])
   \<and> (\<forall>b e. csr opts = Some b \<and> getAccountUrl c = Inl e \<longrightarrow>
       filter is_createAccount (fst (auto_staged f c opts)) =
         [CreateAccount (make_accountPayload opts)]
       \<and> filter is_createAccount (fst (auto_inline f c opts)) =
         [CreateAccount (make_accountPayload opts)]
       \<and> payload_termsOfServiceAgreed (make_accountPayload opts) = termsOfServiceAgreed opts
       \<and> (\<forall>addr. email opts = Some addr \<and> addr \<noteq> [] \<longrightarrow>
             payload_contact (make_accountPayload opts) = Some [''mailto:'' @ addr])
       \<and> (email opts = None \<longrightarrow> payload_contact (make_accountPayload opts) = None)
       \<and> (\<forall>e'. createAccount c (make_accountPayload opts) = Inl e' \<longrightarrow>
             auto_staged f c opts =
               ([GetAccountUrl, CreateAccount (make_accountPayload opts)], Inl e')
             \<and> auto_inline f c opts =
               ([GetAccountUrl, CreateAccount (make_accountPayload opts)], Inl e')))"
proof (intro conjI allI impI)
  fix u
  assume "getAccountUrl c = Inr u"
  then show "filter is_createAccount (fst (auto_staged f c opts)) = []"
    and "filter is_createAccount (fst (auto_inline f c opts)) = []"
    by (simp_all add: createAccount_calls begin_order_createAccount split: option.splits)
next
  fix b e
  assume h: "csr opts = Some b \<and> getAccountUrl c = Inl e"
  then show "filter is_createAccount (fst (auto_staged f c opts)) =
      [CreateAccount (make_accountPayload opts)]"
    and "filter is_createAccount (fst (auto_inline f c opts)) =
      [CreateAccount (make_accountPayload opts)]"
    by (simp_all add: createAccount_calls begin_order_createAccount)
  show "payload_termsOfServiceAgreed (make_accountPayload opts) = termsOfServiceAgreed opts"
    by (simp add: make_accountPayload_def)
  show "payload_contact (make_accountPayload opts) = Some [''mailto:'' @ addr]"
    if "email opts = Some addr \<and> addr \<noteq> []" for addr
    using that by (simp add: make_accountPayload_def)
  show "payload_contact (make_accountPayload opts) = None" if "email opts = None"
    using that by (simp add: make_accountPayload_def)
  show "auto_staged f c opts = ([GetAccountUrl, CreateAccount (make_accountPayload opts)], Inl e')"
    and "auto_inline f c opts = ([GetAccountUrl, CreateAccount (make_accountPayload opts)], Inl e')"
    if "createAccount c (make_accountPayload opts) = Inl e'" for e'
    using h that registration_failure[of opts b c e e' f] by simp_all
qed

theorem account_registration_witness:
  "getAccountUrl (ex_client (Inl (new_Error ''No account URL found'')) []) =
     Inl (new_Error ''No account URL found'')
   \<and> filter is_createAccount (fst (auto_staged (ex_forge ''a.com'' [])
        (ex_client (Inl (new_Error ''No account URL found'')) [ex_authz ''a.com'' [ex_http]])
        ((ex_opts [] [])\<lparr>email := Some ''admin@a.com'', termsOfServiceAgreed := True\<rparr>)))
     = [CreateAccount \<lparr>payload_termsOfServiceAgreed = True,
          payload_contact = Some [''mailto:admin@a.com'']\<rparr>]
   \<and> filter is_createAccount (fst (auto_inline (ex_forge ''a.com'' [])
        (ex_client (Inr ''acct-1'') [ex_authz ''a.com'' [ex_http]])
        ((ex_opts [] [])\<lparr>email := Some ''admin@a.com'', termsOfServiceAgreed := True\<rparr>)))
     = []
   \<and> auto_staged (ex_forge ''a.com'' [])
        ((ex_client (Inl (new_Error ''No account URL found'')) [ex_authz ''a.com'' [ex_http]])
           \<lparr>createAccount := (\<lambda>_. Inl (new_Error ''registration refused''))\<rparr>)
        (ex_opts [] [])
     = ([GetAccountUrl,
         CreateAccount \<lparr>payload_termsOfServiceAgreed = False, payload_contact = None\<rparr>],
        Inl (new_Error ''registration refused''))"
  using
    account_registration[of
      "ex_client (Inl (new_Error ''No account URL found'')) [ex_authz ''a.com'' [ex_http]]"
      "ex_forge ''a.com'' []"
      "(ex_opts [] [])\<lparr>email := Some ''admin@a.com'', termsOfServiceAgreed := True\<rparr>"]
    account_registration[of
      "ex_client (Inr ''acct-1'') [ex_authz ''a.com'' [ex_http]]"
      "ex_forge ''a.com'' []"
      "(ex_opts [] [])\<lparr>email := Some ''admin@a.com'', termsOfServiceAgreed := True\<rparr>"]
    account_registration[of
      "(ex_client (Inl (new_Error ''No account URL found'')) [ex_authz ''a.com'' [ex_http]])
           \<lparr>createAccount := (\<lambda>_. Inl (new_Error ''registration refused''))\<rparr>"
      "ex_forge ''a.com'' []" "ex_opts [] []"]
  by (simp add: ex_defs make_accountPayload_def new_Error_def)

text \<open>
  C9.  In both orchestrators, when the CSR parses to a common name and a list of
  alternative names, \<^verbatim>\<open>createOrder\<close> is called exactly once, and its identifiers are the
  common name followed by the alternative names in their order, each with type
  \<^verbatim>\<open>dns\<close>.
\<close>

theorem order_identifiers:
  "\<forall>b cn alts.
     csr opts = Some b \<and> snd (register_account c opts) = Inr ()
     \<and> readCsrDomains f b = Inr \<lparr>commonName = cn, altNames = alts\<rparr> \<longrightarrow>
       filter is_createOrder (fst (auto_staged f c opts)) =
         [CreateOrder (map (\<lambda>d. \<lparr>id_type = ''dns'', id_value = d\<rparr>) (cn # alts))]
       \<and> filter is_createOrder (fst (auto_inline f c opts)) =
         [CreateOrder (map (\<lambda>d. \<lparr>id_type = ''dns'', id_value = d\<rparr>) (cn # alts))]"
  by (simp add: createOrder_calls begin_order_createOrder orderPayload_def domains_of_def)

theorem order_identifiers_witness:
  "csr (ex_opts [] []) = Some ''csr''
   \<and> snd (register_account (ex_client (Inr ''acct-1'') []) (ex_opts [] [])) = Inr ()
   \<and> readCsrDomains (ex_forge ''a.com'' [''b.com'', ''c.com'']) ''csr'' =
       Inr \<lparr>commonName = ''a.com'', altNames = [''b.com'', ''c.com'']\<rparr>
   \<and> filter is_createOrder (fst (auto_staged (ex_forge ''a.com'' [''b.com'', ''c.com''])
        (ex_client (Inr ''acct-1'') []) (ex_opts [] [])))
     = [CreateOrder [\<lparr>id_type = ''dns'', id_value = ''a.com''\<rparr>,
          \<lparr>id_type = ''dns'', id_value = ''b.com''\<rparr>,
          \<lparr>id_type = ''dns'', id_value = ''c.com''\<rparr>]]
   \<and> filter is_createOrder (fst (auto_inline (ex_forge ''a.com'' [''b.com'', ''c.com''])
        (ex_client (Inr ''acct-1'') []) (ex_opts [] [])))
     = [CreateOrder [\<lparr>id_type = ''dns'', id_value = ''a.com''\<rparr>,
          \<lparr>id_type = ''dns'', id_value = ''b.com''\<rparr>,
          \<lparr>id_type = ''dns'', id_value = ''c.com''\<rparr>]]"
  using order_identifiers[of "ex_opts [] []" "ex_client (Inr ''acct-1'') []"
      "ex_forge ''a.com'' [''b.com'', ''c.com'']"]
  by (simp add: ex_defs register_account_def)

subsection \<open>The authorization passed to the hooks\<close>















subsection \<open>Staggering\<close>

lemma nth_creates:
  "i < length infos \<Longrightarrow>
     challengeCreatePromises o1 infos ! i = createTask o1 i (infos ! i)"
  by (simp add: challengeCreatePromises_def nth_enumerate_eq)

lemma nth_removes:
  "i < length (provisioned items) \<Longrightarrow>
     willRemovePromises o1 items ! i = removeTask o1 i (provisioned items ! i)"
  by (simp add: willRemovePromises_def nth_enumerate_eq)

lemma untimed_steps:
  "filter is_timed (fst (register_account c o1)) = []"
  "filter is_timed (fst (place_order f c b)) = []"
  "filter is_timed (fst (challengeTask c o1 a)) = []"
  "filter is_timed (fst (complete_and_wait c ch)) = []"
  "filter is_timed (fst (finalize c o1 order b)) = []"
  by (simp_all add: register_account_def place_order_def challengeTask_def complete_and_wait_def
      finalize_def Let_def split: sum.splits prod.splits)

lemma untimed_verify_and_complete:
  "filter is_timed (fst (verify_and_complete c o1 a ch)) = []"
  by (simp add: verify_and_complete_def untimed_steps split: sum.splits)

lemma untimed_begin_order: "filter is_timed (fst (begin_order f c o1)) = []"
  by (simp add: begin_order_events_split untimed_steps split: option.splits sum.splits)

lemma untimed_challenge_tasks:
  "filter is_timed (concat (map fst (map (challengeTask c o1) auths))) = []"
  by (induction auths) (simp_all add: untimed_steps del: map_map)

lemma untimed_staged_prepare: "filter is_timed (fst (staged_prepare f c o1)) = []"
  by (simp add: staged_prepare_split untimed_begin_order untimed_challenge_tasks
      split: sum.splits del: map_map)

lemma untimed_verify_tasks:
  "filter is_timed (concat (map fst (map (verifyTask c o1) infos))) = []"
  by (induction infos) (simp_all add: verifyTask_def untimed_verify_and_complete del: map_map)

lemma timed_verify_phase:
  "filter is_timed (fst (verify_phase c o1 items)) =
     (if hasError items = [] then [Sleep 30000] else [])"
  by (simp add: verify_phase_def Let_def untimed_verify_tasks split: list.splits sum.splits
      del: map_map)

lemma timed_createTask:
  "filter is_timed (fst (createTask o1 i info)) = [Sleep (i * 2000), create_call info]"
  by (simp add: createTask_def create_call_def split: sum.splits)

lemma timed_removeTask:
  "filter is_timed (removeTask o1 i info) = [Sleep (i * 2000), remove_call info]"
  by (simp add: removeTask_def remove_suppressed_def remove_call_def split: sum.splits)

lemma timed_creates:
  "filter is_timed (concat (map fst (map (\<lambda>(i, info). createTask o1 i info) (enumerate n infos))))
     = concat (map (\<lambda>(i, info). [Sleep (i * 2000), create_call info]) (enumerate n infos))"
  by (induction infos arbitrary: n) (simp_all add: timed_createTask)

lemma timed_removes:
  "filter is_timed (concat (map (\<lambda>(i, info). removeTask o1 i info) (enumerate n infos)))
     = concat (map (\<lambda>(i, info). [Sleep (i * 2000), remove_call info]) (enumerate n infos))"
  by (induction infos arbitrary: n) (simp_all add: timed_removeTask)

lemma timed_provision_verify_cleanup:
  "filter is_timed (fst (provision_verify_cleanup c o1 infos)) =
     concat (map (\<lambda>(i, info). [Sleep (i * 2000), create_call info]) (enumerate 0 infos)) @
     (if hasError (map snd (challengeCreatePromises o1 infos)) = [] then [Sleep 30000] else []) @
     concat (map (\<lambda>(i, info). [Sleep (i * 2000), remove_call info])
       (enumerate 0 (provisioned (map snd (challengeCreatePromises o1 infos)))))"
  using timed_creates[of o1 0 infos]
  by (simp add: provision_verify_cleanup_def Let_def timed_verify_phase willRemovePromises_def
      timed_removes challengeCreatePromises_def)

lemma timed_staged:
  assumes "snd (staged_prepare f c o1) = Inr (b, order, infos)"
  shows "filter is_timed (fst (auto_staged f c o1)) =
     concat (map (\<lambda>(i, info). [Sleep (i * 2000), create_call info]) (enumerate 0 infos)) @
     (if hasError (map snd (challengeCreatePromises o1 infos)) = [] then [Sleep 30000] else []) @
     concat (map (\<lambda>(i, info). [Sleep (i * 2000), remove_call info])
       (enumerate 0 (provisioned (map snd (challengeCreatePromises o1 infos)))))"
  using assms
  by (simp add: auto_staged_events untimed_staged_prepare untimed_steps
      timed_provision_verify_cleanup split: sum.splits)

text \<open>
  C8.  A delay is the event \<^verbatim>\<open>Sleep ms\<close> of a task that awaits
  \<^verbatim>\<open>sleep(ms)\<close>.  In the staged orchestrator the provisioning task of the domain at index
  \<open>i\<close> first awaits a delay of \<open>i \<times> 2000\<close> milliseconds and then calls the create hook; the
  \<open>i\<close>-th cleanup task, over the domains that were provisioned, first awaits a delay of
  \<open>i \<times> 2000\<close> milliseconds and then calls the remove hook.  In a run that reaches provisioning,
  the timers and hook calls are exactly these, in this order, with the 30 second wait
  between them when no creation failed.
\<close>

theorem staggered_hooks:
  "(\<forall>i < length infos.
       take 2 (fst (challengeCreatePromises opts infos ! i)) =
         [Sleep (i * 2000), create_call (infos ! i)])
   \<and> (\<forall>i < length (provisioned items).
       take 2 (willRemovePromises opts items ! i) =
         [Sleep (i * 2000), remove_call (provisioned items ! i)])
   \<and> (\<forall>b order.
         snd (staged_prepare f c opts) = Inr (b, order, infos) \<longrightarrow>
         timed_calls (fst (auto_staged f c opts)) =
           concat (map (\<lambda>(i, info). [Sleep (i * 2000), create_call info])
             (enumerate 0 infos)) @
           (if hasError (map snd (challengeCreatePromises opts infos)) = []
            then [Sleep 30000] else []) @
           concat (map (\<lambda>(i, info). [Sleep (i * 2000), remove_call info])
             (enumerate 0 (provisioned (map snd (challengeCreatePromises opts infos))))))"
proof (intro conjI allI impI)
  fix i
  assume "i < length infos"
  then show "take 2 (fst (challengeCreatePromises opts infos ! i)) =
      [Sleep (i * 2000), create_call (infos ! i)]"
    by (simp add: nth_creates createTask_def create_call_def split: sum.splits)
next
  fix i
  assume "i < length (provisioned items)"
  then show "take 2 (willRemovePromises opts items ! i) =
      [Sleep (i * 2000), remove_call (provisioned items ! i)]"
    by (simp add: nth_removes removeTask_def remove_suppressed_def remove_call_def)
next
  fix b order
  assume "snd (staged_prepare f c opts) = Inr (b, order, infos)"
  then show "timed_calls (fst (auto_staged f c opts)) =
      concat (map (\<lambda>(i, info). [Sleep (i * 2000), create_call info])
        (enumerate 0 infos)) @
      (if hasError (map snd (challengeCreatePromises opts infos)) = []
       then [Sleep 30000] else []) @
      concat (map (\<lambda>(i, info). [Sleep (i * 2000), remove_call info])
        (enumerate 0 (provisioned (map snd (challengeCreatePromises opts infos)))))"
    using timed_staged[of f c opts b order infos] by (simp add: timed_calls_def)
qed

theorem staggered_hooks_witness:
  "snd (staged_prepare (ex_forge ''a.com'' [''b.com'', ''c.com''])
      (ex_client (Inr ''acct-1'')
         [ex_authz ''a.com'' [ex_dns], ex_authz ''b.com'' [ex_dns], ex_authz ''c.com'' [ex_dns]])
      (ex_opts [''a.com''] []))
     = Inr (''csr'', ''order-1'',
         [ex_info ''a.com'' ex_dns, ex_info ''b.com'' ex_dns, ex_info ''c.com'' ex_dns])
   \<and> timed_calls (fst (auto_staged (ex_forge ''a.com'' [''b.com'', ''c.com''])
      (ex_client (Inr ''acct-1'')
         [ex_authz ''a.com'' [ex_dns], ex_authz ''b.com'' [ex_dns], ex_authz ''c.com'' [ex_dns]])
      (ex_opts [''a.com''] [])))
     = [Sleep 0, create_call (ex_info ''a.com'' ex_dns),
        Sleep 2000, create_call (ex_info ''b.com'' ex_dns),
        Sleep 4000, create_call (ex_info ''c.com'' ex_dns),
        Sleep 0,
        remove_call ((ex_info ''b.com'' ex_dns)\<lparr>record_handle := Some ''record-b.com''\<rparr>),
        Sleep 2000,
        remove_call ((ex_info ''c.com'' ex_dns)\<lparr>record_handle := Some ''record-c.com''\<rparr>)]
   \<and> take 2 (fst (challengeCreatePromises (ex_opts [''a.com''] [])
        [ex_info ''a.com'' ex_dns, ex_info ''b.com'' ex_dns, ex_info ''c.com'' ex_dns] ! 2))
     = [Sleep 4000, create_call (ex_info ''c.com'' ex_dns)]
   \<and> take 2 (willRemovePromises (ex_opts [''a.com''] [])
        (map snd (challengeCreatePromises (ex_opts [''a.com''] [])
          [ex_info ''a.com'' ex_dns, ex_info ''b.com'' ex_dns, ex_info ''c.com'' ex_dns])) ! 1)
     = [Sleep 2000,
        remove_call ((ex_info ''c.com'' ex_dns)\<lparr>record_handle := Some ''record-c.com''\<rparr>)]"
proof -
  let ?f = "ex_forge ''a.com'' [''b.com'', ''c.com'']"
  let ?c = "ex_client (Inr ''acct-1'')
    [ex_authz ''a.com'' [ex_dns], ex_authz ''b.com'' [ex_dns], ex_authz ''c.com'' [ex_dns]]"
  let ?o = "ex_opts [''a.com''] []"
  let ?infos = "[ex_info ''a.com'' ex_dns, ex_info ''b.com'' ex_dns, ex_info ''c.com'' ex_dns]"
  have prep: "snd (staged_prepare ?f ?c ?o) = Inr (''csr'', ''order-1'', ?infos)"
    by (simp add: ex_defs run_defs Let_def)
  have items: "map snd (challengeCreatePromises ?o ?infos) =
      [Inl (new_Error ''no record for a.com''),
       Inr ((ex_info ''b.com'' ex_dns)\<lparr>record_handle := Some ''record-b.com''\<rparr>),
       Inr ((ex_info ''c.com'' ex_dns)\<lparr>record_handle := Some ''record-c.com''\<rparr>)]"
    by (simp add: ex_defs challengeCreatePromises_def createTask_def new_Error_def)
  show ?thesis
    using staggered_hooks[of ?infos ?o "map snd (challengeCreatePromises ?o ?infos)" ?f ?c]
      prep
    by (simp add: items)
qed

end
